theory Spec2Isabelle
  imports Complex_Main
begin

section \<open>Nancealoid: a one-dimensional digital waveguide model of the vocal tract\<close>

text \<open>
  The development embeds the feature-complete variant of the tract simulation
  (the second program of \<^verbatim>\<open>src/tract.c\<close>, from its line 440 on).  The C types
  \<^verbatim>\<open>double\<close> and \<^verbatim>\<open>jack_default_audio_sample_t\<close> are embedded as \<^typ>\<open>real\<close>:
  the arithmetic of the simulation is the exact one, without rounding.  Two functions
  are embedded a second time with every operation rounded to a \<^verbatim>\<open>double\<close>
  (\<open>reflection_with\<close> and \<open>advance_with\<close> at the rounding \<open>dbl\<close>), because a strict bound
  and a limit that hold of the exact quotient and of the exact update do not hold of
  the rounded ones.

  A division of the program whose divisor is an impedance, an area or a sum of
  impedances is written with the division of \<^typ>\<open>real\<close>.  Where such a divisor is
  zero the program's quotient is infinite or not a number and the model's is 0, so what
  is proved of a quotient holds of the program on the chains whose impedances and
  target impedances are positive numbers.  The one division whose divisor is zero on a
  chain of positive impedances, by \<^verbatim>\<open>ntongue - 1\<close> in the shape function, is modelled
  with an explicit failure: the program stores a value that is not a number and goes
  on, the model stops, and the states that follow in the program are not states of the
  model.
\<close>

subsection \<open>Constants\<close>

definition SPEED_OF_SOUND :: real where "SPEED_OF_SOUND = 34300"
definition TRACT_LENGTH :: real where "TRACT_LENGTH = 35 / 2"
definition NEUTRAL_Z :: real where "NEUTRAL_Z = 1"
definition THROAT_Z :: real where "THROAT_Z = 5"
definition DRAIN_Z :: real where "DRAIN_Z = 1 / 10"
definition MIN_AREA :: real where "MIN_AREA = 1 / 1000000"

definition TONGUE_BACK :: real where "TONGUE_BACK = 2 / 10"
definition TONGUE_FRONT :: real where "TONGUE_FRONT = 9 / 10"

definition FRICATION :: real where "FRICATION = 1 / 10"
definition PHYSICAL_DAMPING :: real where "PHYSICAL_DAMPING = 1"
definition LIPS_RIGIDITY :: real where "LIPS_RIGIDITY = 1"

definition DEFAULT_INTERPOLATION_DRAG :: real where "DEFAULT_INTERPOLATION_DRAG = 4 / 10000"
definition DRAG_MIN :: real where "DRAG_MIN = 1 / 1000"
definition DRAG_MAX :: real where "DRAG_MAX = 1 / 10000"
definition MIN_DIAPHRAM_PRESSURE :: real where "MIN_DIAPHRAM_PRESSURE = - (2 / 10)"
definition MAX_DIAPHRAM_PRESSURE :: real where "MAX_DIAPHRAM_PRESSURE = 2 / 10"
definition DEFAULT_DAMPING :: real where "DEFAULT_DAMPING = 4 / 100"
definition MIN_DAMPING :: real where "MIN_DAMPING = 0"
definition MAX_DAMPING :: real where "MAX_DAMPING = 2 / 10"
definition CONTROLLER_TRACT_LENGTH_MIN :: real where "CONTROLLER_TRACT_LENGTH_MIN = 8"
definition CONTROLLER_TRACT_LENGTH_MAX :: real where "CONTROLLER_TRACT_LENGTH_MAX = 24"

subsection \<open>The arithmetic of \<^verbatim>\<open>double\<close>\<close>

text \<open>
  An operation on values of type \<^verbatim>\<open>double\<close> returns the exact result rounded to the
  nearest number with a significand of 53 bits, and to the one with an even significand
  when two are equally near (IEEE 754 binary64, the default rounding).  \<open>dbl\<close> is this
  rounding on the reals, with no bound on the exponent: it is the rounding of the
  program where neither the exact result nor the rounded one is beyond the range of
  the normal numbers of the format (magnitudes from \<^verbatim>\<open>2^-1022\<close> to below \<^verbatim>\<open>2^1024\<close>).

  \<open>pow2 k\<close> is the power \<^verbatim>\<open>2^k\<close> for an integer \<open>k\<close>, \<open>round_even\<close> rounds a real to the nearest
  integer and a half to the even one, and \<open>binade x\<close> is the exponent \<open>k\<close> with
  \<open>pow2 k \<le> \<bar>x\<bar>\<close> and \<open>\<bar>x\<bar> < pow2 (k + 1)\<close>.
\<close>

definition pow2 :: "int \<Rightarrow> real" where
  "pow2 k = (if 0 \<le> k then 2 ^ nat k else 1 / 2 ^ nat (- k))"

definition round_even :: "real \<Rightarrow> int" where
  "round_even x =
     (let f = \<lfloor>x\<rfloor>; r = x - real_of_int f
      in if r < 1 / 2 then f else if 1 / 2 < r then f + 1
         else if even f then f else f + 1)"

definition binade :: "real \<Rightarrow> int" where
  "binade x = \<lfloor>log 2 \<bar>x\<bar>\<rfloor>"

definition dbl :: "real \<Rightarrow> real" where
  "dbl x =
     (if x = 0 then 0
      else real_of_int (round_even (x * pow2 (52 - binade x))) * pow2 (binade x - 52))"

subsection \<open>The reflection coefficient\<close>

text \<open>\<^verbatim>\<open>double reflection(double source_z, double target_z)\<close>\<close>

definition reflection :: "real \<Rightarrow> real \<Rightarrow> real" where
  "reflection source_z target_z = (target_z - source_z) / (target_z + source_z)"

text \<open>
  The same function with the result of each of its three operations passed through a
  rounding \<open>rd\<close>; at the rounding that changes nothing it is \<open>reflection\<close>.
\<close>

definition reflection_with :: "(real \<Rightarrow> real) \<Rightarrow> real \<Rightarrow> real \<Rightarrow> real" where
  "reflection_with rd source_z target_z =
     rd (rd (target_z - source_z) / rd (target_z + source_z))"

subsection \<open>Segments, phonemes and the global state\<close>

text \<open>\<^verbatim>\<open>struct Segment\<close> and \<^verbatim>\<open>struct Phoneme\<close>.\<close>

record Segment =
  z :: real
  target_z :: real
  rigidity :: real
  left :: real
  right :: real

record Phoneme =
  tongue_height :: real
  tongue_position :: real
  lips_roundedness :: real

definition PHONEME_A :: Phoneme where
  "PHONEME_A = \<lparr>tongue_height = 9 / 10, tongue_position = 0, lips_roundedness = 0\<rparr>"
definition PHONEME_I :: Phoneme where
  "PHONEME_I = \<lparr>tongue_height = 9 / 10, tongue_position = 1, lips_roundedness = 0\<rparr>"
definition PHONEME_U :: Phoneme where
  "PHONEME_U = \<lparr>tongue_height = 0, tongue_position = 0, lips_roundedness = 9 / 10\<rparr>"
definition PHONEME_E :: Phoneme where
  "PHONEME_E = \<lparr>tongue_height = 9 / 10, tongue_position = 1 / 2, lips_roundedness = 0\<rparr>"
definition PHONEME_O :: Phoneme where
  "PHONEME_O = \<lparr>tongue_height = 9 / 10, tongue_position = 1 / 4, lips_roundedness = 9 / 10\<rparr>"
definition PHONEME_SCHWA :: Phoneme where
  "PHONEME_SCHWA = \<lparr>tongue_height = 0, tongue_position = 0, lips_roundedness = 0\<rparr>"
definition PHONEME_UH :: Phoneme where
  "PHONEME_UH = \<lparr>tongue_height = 7 / 10, tongue_position = 0, lips_roundedness = 6 / 10\<rparr>"
definition PHONEME_AH :: Phoneme where
  "PHONEME_AH = \<lparr>tongue_height = 7 / 10, tongue_position = 0, lips_roundedness = 0\<rparr>"
definition PHONEME_UE :: Phoneme where
  "PHONEME_UE = \<lparr>tongue_height = 9 / 10, tongue_position = 1, lips_roundedness = 9 / 10\<rparr>"
definition PHONEME_II :: Phoneme where
  "PHONEME_II = \<lparr>tongue_height = 9 / 10, tongue_position = 3 / 4, lips_roundedness = 0\<rparr>"
definition PHONEME_OE :: Phoneme where
  "PHONEME_OE = \<lparr>tongue_height = 0, tongue_position = 0, lips_roundedness = 3 / 4\<rparr>"

text \<open>
  A \<^verbatim>\<open>struct Phoneme *\<close> of the program points to one of the presets or to the
  ambient phoneme.
\<close>

datatype phoneme_ptr =
  PTR_A | PTR_I | PTR_U | PTR_E | PTR_O | PTR_SCHWA | PTR_UH | PTR_AH | PTR_UE | PTR_II
  | PTR_OE | PTR_AMBIENT

text \<open>
  The global variables.  The two allocated arrays are lists; the pointers
  \<^verbatim>\<open>segments_front\<close> and \<^verbatim>\<open>segments_back\<close> always point to one array each, so one
  flag says which array is the front buffer.  \<open>rand_calls\<close> counts the calls of
  \<^verbatim>\<open>rand()\<close> made so far (the state of the generator).
\<close>

record tract =
  rate :: int
  unit_length :: real
  tract_length :: real
  nsegments :: int
  buffer1 :: "Segment list"
  buffer2 :: "Segment list"
  front_is_buffer1 :: bool
  ambient_phoneme :: Phoneme
  target_phoneme :: phoneme_ptr
  current_phoneme :: Phoneme
  interpolation_drag :: real
  diaphram_pressure :: real
  damping :: real
  rand_calls :: nat

definition segments_front :: "tract \<Rightarrow> Segment list" where
  "segments_front s = (if front_is_buffer1 s then buffer1 s else buffer2 s)"

definition segments_back :: "tract \<Rightarrow> Segment list" where
  "segments_back s = (if front_is_buffer1 s then buffer2 s else buffer1 s)"

definition set_front :: "tract \<Rightarrow> Segment list \<Rightarrow> tract" where
  "set_front s xs = (if front_is_buffer1 s then s\<lparr>buffer1 := xs\<rparr> else s\<lparr>buffer2 := xs\<rparr>)"

definition set_back :: "tract \<Rightarrow> Segment list \<Rightarrow> tract" where
  "set_back s xs = (if front_is_buffer1 s then s\<lparr>buffer2 := xs\<rparr> else s\<lparr>buffer1 := xs\<rparr>)"

definition deref :: "tract \<Rightarrow> phoneme_ptr \<Rightarrow> Phoneme" where
  "deref s p =
     (case p of
        PTR_A \<Rightarrow> PHONEME_A | PTR_I \<Rightarrow> PHONEME_I | PTR_U \<Rightarrow> PHONEME_U
      | PTR_E \<Rightarrow> PHONEME_E | PTR_O \<Rightarrow> PHONEME_O | PTR_SCHWA \<Rightarrow> PHONEME_SCHWA
      | PTR_UH \<Rightarrow> PHONEME_UH | PTR_AH \<Rightarrow> PHONEME_AH | PTR_UE \<Rightarrow> PHONEME_UE
      | PTR_II \<Rightarrow> PHONEME_II | PTR_OE \<Rightarrow> PHONEME_OE
      | PTR_AMBIENT \<Rightarrow> ambient_phoneme s)"

text \<open>\<^verbatim>\<open>get_mapped_phoneme\<close>: the notes \<^verbatim>\<open>0x24\<close> to \<^verbatim>\<open>0x2e\<close>.\<close>

definition get_mapped_phoneme :: "nat \<Rightarrow> phoneme_ptr" where
  "get_mapped_phoneme note =
     (if note = 36 then PTR_A else if note = 37 then PTR_I
      else if note = 38 then PTR_U else if note = 39 then PTR_E
      else if note = 40 then PTR_O else if note = 41 then PTR_SCHWA
      else if note = 42 then PTR_UH else if note = 43 then PTR_AH
      else if note = 44 then PTR_UE else if note = 45 then PTR_II
      else if note = 46 then PTR_OE else PTR_AMBIENT)"

text \<open>\<^verbatim>\<open>swap_buffers\<close>\<close>

definition swap_buffers :: "tract \<Rightarrow> tract" where
  "swap_buffers s =
     (if front_is_buffer1 s then s\<lparr>front_is_buffer1 := False\<rparr>
      else s\<lparr>front_is_buffer1 := True\<rparr>)"

subsection \<open>The shape function\<close>

text \<open>The conversion \<^verbatim>\<open>(int)\<close> of a \<^verbatim>\<open>double\<close> truncates toward zero.\<close>

definition c_int :: "real \<Rightarrow> int" where
  "c_int x = (if 0 \<le> x then \<lfloor>x\<rfloor> else \<lceil>x\<rceil>)"

text \<open>
  \<^verbatim>\<open>(i - start) / (double)(ntongue - 1)\<close>.  When the tongue zone has exactly one
  segment the program computes \<^verbatim>\<open>0 / 0.0\<close>, which is not a number: the model
  has no value for it.
\<close>

definition unit_pos :: "int \<Rightarrow> int \<Rightarrow> int \<Rightarrow> real option" where
  "unit_pos i start ntongue =
     (if ntongue - 1 = 0 then None
      else Some (real_of_int (i - start) / real_of_int (ntongue - 1)))"

text \<open>The body of the loop of \<^verbatim>\<open>update_shape\<close>, for the segment of index \<open>i\<close>.\<close>

definition shape_segment :: "Phoneme \<Rightarrow> int \<Rightarrow> bool \<Rightarrow> int \<Rightarrow> Segment \<Rightarrow> Segment option" where
  "shape_segment cur n set_z i s =
     (let start = c_int (TONGUE_BACK * real_of_int n);
          stop = c_int (TONGUE_FRONT * real_of_int n);
          ntongue = stop - start;
          shaped =
            (if i < start then Some (s\<lparr>target_z := THROAT_Z\<rparr>)
             else if i \<ge> stop then
               Some (s\<lparr>target_z := 1 / (1 - lips_roundedness cur + MIN_AREA) * NEUTRAL_Z,
                       rigidity := LIPS_RIGIDITY\<rparr>)
             else
               (case unit_pos i start ntongue of
                  None \<Rightarrow> None
                | Some up \<Rightarrow>
                    (let phase = up - tongue_position cur;
                         val = cos (phase * pi / 2) * tongue_height cur;
                         unit_area = 1 - val
                     in Some (s\<lparr>target_z := 1 / (unit_area + MIN_AREA) * NEUTRAL_Z\<rparr>))))
      in map_option (\<lambda>t. if set_z then t\<lparr>z := target_z t\<rparr> else t) shaped)"

definition update_shape :: "bool \<Rightarrow> tract \<Rightarrow> tract option" where
  "update_shape set_z s =
     map_option (set_front s)
       (those (map (\<lambda>i. shape_segment (current_phoneme s) (nsegments s) set_z (int i)
                          (segments_front s ! i))
                 [0..<nat (nsegments s)]))"

subsection \<open>Initialisation and resizing\<close>

text \<open>
  \<open>NullDeref g\<close>: the program writes through a null pointer (\<^verbatim>\<open>malloc\<close> failed and its
  result is not checked); \<open>g\<close> is what the global variables hold at that write, with the
  empty list for a buffer pointer that is null (the segment count is positive there).
  \<open>NotANumber\<close>: the program stores the result of \<^verbatim>\<open>0 / 0.0\<close> in a segment and goes
  on with it; the model stops there.
\<close>

datatype tract_error = NullDeref tract | NotANumber

definition neutral_segment :: Segment where
  "neutral_segment =
     \<lparr>z = NEUTRAL_Z, target_z = NEUTRAL_Z, rigidity = 1, left = 0, right = 0\<rparr>"

text \<open>
  \<^verbatim>\<open>malloc\<close> of an array of \<open>n\<close> segments: the array, or the null pointer when the
  allocation fails.  What a fresh array holds is unspecified (zeros here); the program
  writes every field of every segment before it reads one.  A null pointer that is
  never dereferenced (no segment at all) stands for the empty array.
\<close>

definition fresh_segment :: Segment where
  "fresh_segment = \<lparr>z = 0, target_z = 0, rigidity = 0, left = 0, right = 0\<rparr>"

definition malloc_segments :: "bool \<Rightarrow> nat \<Rightarrow> Segment list option" where
  "malloc_segments ok n = (if ok then Some (replicate n fresh_segment) else None)"

definition array_of :: "Segment list option \<Rightarrow> Segment list" where
  "array_of p = (case p of None \<Rightarrow> [] | Some xs \<Rightarrow> xs)"

text \<open>
  The body of the initialising loop of \<^verbatim>\<open>init_tract\<close>, for the index \<open>i\<close>: it writes
  the segment of the front buffer, then the one of the back buffer, through pointers
  that the program has not compared with the null pointer.  \<open>Inl\<close> is the write through
  a null pointer, with the two arrays as they are at that write: nothing is written
  when the front pointer is null, the segment of the front buffer is written when the
  back pointer alone is null.
\<close>

definition init_segment ::
  "nat \<Rightarrow> Segment list option \<times> Segment list option + Segment list option \<times> Segment list option
     \<Rightarrow> Segment list option \<times> Segment list option + Segment list option \<times> Segment list option"
  where
  "init_segment i acc =
     (case acc of
        Inl fault \<Rightarrow> Inl fault
      | Inr (front, back) \<Rightarrow>
          (case front of
             None \<Rightarrow> Inl (front, back)
           | Some f \<Rightarrow>
               (case back of
                  None \<Rightarrow> Inl (Some (f[i := neutral_segment]), back)
                | Some b \<Rightarrow>
                    Inr (Some (f[i := neutral_segment]), Some (b[i := neutral_segment])))))"

text \<open>
  \<^verbatim>\<open>init_tract\<close>.  \<open>jack_rate\<close> is what \<^verbatim>\<open>jack_get_sample_rate\<close> returns (a positive
  number); \<open>ok1\<close> and \<open>ok2\<close> say whether the two calls of \<^verbatim>\<open>malloc\<close> succeed.  The
  sample rate, the lengths, the segment count and the two buffer pointers are assigned
  before the initialising loop runs, so they are what the global variables hold when
  the loop writes through a null pointer.
\<close>

definition init_tract :: "int \<Rightarrow> bool \<Rightarrow> bool \<Rightarrow> real \<Rightarrow> tract \<Rightarrow> tract_error + tract" where
  "init_tract jack_rate ok1 ok2 desired_length s =
     (let ul = SPEED_OF_SOUND / real_of_int jack_rate;
          n = c_int (desired_length / ul);
          tl = real_of_int n * ul;
          new1 = malloc_segments ok1 (nat n);
          new2 = malloc_segments ok2 (nat n)
      in case fold init_segment [0..<nat n] (Inr (new1, new2)) of
           Inl (front, back) \<Rightarrow>
             Inl (NullDeref
                    (s\<lparr>rate := jack_rate, unit_length := ul, tract_length := tl,
                       nsegments := n,
                       buffer1 := array_of front, buffer2 := array_of back,
                       front_is_buffer1 := True\<rparr>))
         | Inr (front, back) \<Rightarrow>
             (case update_shape True
                     (s\<lparr>rate := jack_rate, unit_length := ul, tract_length := tl,
                        nsegments := n,
                        buffer1 := array_of front, buffer2 := array_of back,
                        front_is_buffer1 := True\<rparr>) of
                None \<Rightarrow> Inl NotANumber
              | Some s' \<Rightarrow> Inr s'))"

text \<open>The copying loop of \<^verbatim>\<open>resize_tract\<close>, on the pair of the two new arrays.\<close>

definition copy_waves ::
  "Segment list \<Rightarrow> Segment list \<Rightarrow> nat \<Rightarrow> Segment list \<times> Segment list
     \<Rightarrow> Segment list \<times> Segment list" where
  "copy_waves old1 old2 i =
     (\<lambda>(b1, b2).
        (b1[i := (b1 ! i)\<lparr>left := left (old1 ! i), right := right (old1 ! i)\<rparr>],
         b2[i := (b2 ! i)\<lparr>left := left (old2 ! i), right := right (old2 ! i)\<rparr>]))"

text \<open>
  \<^verbatim>\<open>resize_tract\<close>.  The old arrays are kept in local variables only; when
  \<^verbatim>\<open>init_tract\<close> writes through a null pointer the global variables are as it left
  them.
\<close>

definition resize_tract :: "int \<Rightarrow> bool \<Rightarrow> bool \<Rightarrow> real \<Rightarrow> tract \<Rightarrow> tract_error + tract" where
  "resize_tract jack_rate ok1 ok2 desired_length s =
     (let old_nsegments = nsegments s; old1 = buffer1 s; old2 = buffer2 s
      in case init_tract jack_rate ok1 ok2 desired_length s of
           Inl e \<Rightarrow> Inl e
         | Inr s' \<Rightarrow>
             (let n = (if old_nsegments < nsegments s' then old_nsegments else nsegments s');
                  (b1, b2) = fold (copy_waves old1 old2) [0..<nat n] (buffer1 s', buffer2 s')
              in Inr (s'\<lparr>buffer1 := b1, buffer2 := b2\<rparr>)))"

subsection \<open>One sample of the simulation\<close>

text \<open>\<^verbatim>\<open>noise\<close>, for the value \<open>r\<close> that \<^verbatim>\<open>rand()\<close> returns.\<close>

definition noise :: "int \<Rightarrow> int \<Rightarrow> real" where
  "noise rand_max r = real_of_int r / (real_of_int rand_max / 2) - 1"

text \<open>The first loop of \<^verbatim>\<open>run_tract\<close>: what is written to the back buffer's segment.\<close>

definition carry_over :: "Segment \<Rightarrow> Segment" where
  "carry_over old =
     (let old_area = 1 / z old;
          target_area = 1 / target_z old;
          delta = target_area - old_area;
          new_area = old_area + delta * PHYSICAL_DAMPING;
          new_area = (if new_area < 0 then MIN_AREA else new_area)
      in \<lparr>z = 1 / new_area, target_z = target_z old, rigidity = rigidity old,
          left = 0, right = 0\<rparr>)"

definition add_left :: "Segment list \<Rightarrow> nat \<Rightarrow> real \<Rightarrow> Segment list" where
  "add_left xs i v = xs[i := (xs ! i)\<lparr>left := left (xs ! i) + v\<rparr>]"

definition add_right :: "Segment list \<Rightarrow> nat \<Rightarrow> real \<Rightarrow> Segment list" where
  "add_right xs i v = xs[i := (xs ! i)\<lparr>right := right (xs ! i) + v\<rparr>]"

definition put_z :: "Segment list \<Rightarrow> nat \<Rightarrow> real \<Rightarrow> Segment list" where
  "put_z xs i v = xs[i := (xs ! i)\<lparr>z := v\<rparr>]"

text \<open>
  The second loop of \<^verbatim>\<open>run_tract\<close>, for the segment of index \<open>i\<close>.  The state of
  the loop is the back buffer, the drain sample and the number of calls of
  \<^verbatim>\<open>rand()\<close>; the local variable \<^verbatim>\<open>area\<close> is passed from one half of the body to the
  other.  \<open>rnd k\<close> is the value the call number \<open>k\<close> of \<^verbatim>\<open>rand()\<close> returns.

  The half that processes the sound moving right, toward the lips:
\<close>

definition scatter_rightward ::
  "int \<Rightarrow> (nat \<Rightarrow> int) \<Rightarrow> real \<Rightarrow> real \<Rightarrow> real \<Rightarrow> Segment list \<Rightarrow> nat
     \<Rightarrow> Segment list \<times> real \<times> nat \<Rightarrow> Segment list \<times> real \<times> nat" where
  "scatter_rightward rand_max rnd dmp pressure glottal_source front i =
     (\<lambda>(bk, area, c).
        (let old = front ! i
         in if i = 0 then
              (let gamma = 1 - reflection DRAIN_Z (z old)
               in (add_right bk i (left old * (1 - dmp) + glottal_source * gamma + pressure),
                   area, c))
            else
              (let old_left = front ! (i - 1);
                   gamma = reflection (z old_left) (z old);
                   refl = right old_left * gamma;
                   bk1 = add_right bk i (right old_left - refl);
                   bk2 = add_left bk1 (i - 1) (refl * (1 - dmp));
                   velocity = (if refl < 0 then 0 else refl);
                   bk3 = add_left bk2 (i - 1) (FRICATION * velocity * noise rand_max (rnd c))
               in (bk3, area + refl * (1 - rigidity old), Suc c))))"

text \<open>The half that processes the sound moving left, toward the glottis:\<close>

definition scatter_leftward ::
  "int \<Rightarrow> (nat \<Rightarrow> int) \<Rightarrow> real \<Rightarrow> int \<Rightarrow> Segment list \<Rightarrow> nat
     \<Rightarrow> Segment list \<times> real \<times> real \<times> nat \<Rightarrow> Segment list \<times> real \<times> real \<times> nat" where
  "scatter_leftward rand_max rnd dmp n front i =
     (\<lambda>(bk, dr, area, c).
        (let old = front ! i
         in if int i = n - 1 then
              (let gamma = reflection (z old) DRAIN_Z;
                   refl = right old * gamma
               in (add_left bk i (refl * (1 - dmp)), right old - refl,
                   area + refl * (1 - rigidity old), c))
            else
              (let old_right = front ! (i + 1);
                   gamma = reflection (z old_right) (z old);
                   refl = left old_right * gamma;
                   bk1 = add_left bk i (left old_right - refl);
                   bk2 = add_right bk1 (i + 1) (refl * (1 - dmp));
                   velocity = (if refl < 0 then 0 else refl);
                   bk3 = add_right bk2 (i + 1) (FRICATION * velocity * noise rand_max (rnd c))
               in (bk3, dr, area + refl * (1 - rigidity old), Suc c))))"

definition scatter_segment ::
  "int \<Rightarrow> (nat \<Rightarrow> int) \<Rightarrow> real \<Rightarrow> real \<Rightarrow> real \<Rightarrow> int \<Rightarrow> Segment list \<Rightarrow> nat
     \<Rightarrow> Segment list \<times> real \<times> nat \<Rightarrow> Segment list \<times> real \<times> nat" where
  "scatter_segment rand_max rnd dmp pressure glottal_source n front i =
     (\<lambda>(bk, dr, c).
        (let area0 = 1 / z (bk ! i);
             (bk1, area1, c1) =
                scatter_rightward rand_max rnd dmp pressure glottal_source front i (bk, area0, c);
             (bk2, dr2, area2, c2) =
                scatter_leftward rand_max rnd dmp n front i (bk1, dr, area1, c1);
             area3 = (if area2 < 0 then MIN_AREA else area2)
         in (put_z bk2 i (1 / area3), dr2, c2)))"

text \<open>
  The two loops of \<^verbatim>\<open>run_tract\<close>: the back buffer as it stands before
  \<^verbatim>\<open>swap_buffers\<close>, the drain sample and the number of calls of \<^verbatim>\<open>rand()\<close>.
\<close>

definition scatter_pass ::
  "int \<Rightarrow> (nat \<Rightarrow> int) \<Rightarrow> tract \<Rightarrow> real \<Rightarrow> Segment list \<times> real \<times> nat" where
  "scatter_pass rand_max rnd s glottal_source =
     (let n = nsegments s;
          front = segments_front s;
          bk0 = map (\<lambda>i. carry_over (front ! i)) [0..<nat n]
      in fold (scatter_segment rand_max rnd (damping s) (diaphram_pressure s)
                 glottal_source n front)
           [0..<nat n] (bk0, 0, rand_calls s))"

text \<open>The update of the current phoneme at the end of \<^verbatim>\<open>run_tract\<close>.\<close>

definition advance :: "real \<Rightarrow> Phoneme \<Rightarrow> Phoneme \<Rightarrow> Phoneme" where
  "advance drag tgt cur =
     cur\<lparr>tongue_position :=
            tongue_position cur + (tongue_position tgt - tongue_position cur) * drag,
         tongue_height :=
            tongue_height cur + (tongue_height tgt - tongue_height cur) * drag,
         lips_roundedness :=
            lips_roundedness cur + (lips_roundedness tgt - lips_roundedness cur) * drag\<rparr>"


definition articulate :: "tract \<Rightarrow> tract" where
  "articulate s =
     s\<lparr>current_phoneme :=
         advance (interpolation_drag s) (deref s (target_phoneme s)) (current_phoneme s)\<rparr>"

text \<open>
  \<^verbatim>\<open>run_tract\<close>: the drain sample and the new state, or nothing when the shape
  function has no value.
\<close>

definition run_tract ::
  "int \<Rightarrow> (nat \<Rightarrow> int) \<Rightarrow> tract \<Rightarrow> real \<Rightarrow> (real \<times> tract) option" where
  "run_tract rand_max rnd s glottal_source =
     (let (bk, dr, c) = scatter_pass rand_max rnd s glottal_source;
          s1 = swap_buffers ((set_back s bk)\<lparr>rand_calls := c\<rparr>);
          s2 = articulate s1
      in map_option (\<lambda>s3. (dr, s3)) (update_shape False s2))"

subsection \<open>Control events and the reachable states\<close>

text \<open>\<^verbatim>\<open>map2range\<close>, for a value of type \<^verbatim>\<open>uint8_t\<close>.\<close>

definition map2range :: "nat \<Rightarrow> real \<Rightarrow> real \<Rightarrow> real" where
  "map2range v lo hi = lo + (hi - lo) * (real v / 127)"

text \<open>
  A MIDI event is its three bytes.  The body of the event loop of \<^verbatim>\<open>process\<close>:
  the type of the event is \<^verbatim>\<open>buffer[0] & 0xf0\<close> and its channel \<^verbatim>\<open>buffer[0] & 0x0f\<close>.
\<close>

datatype midi_event = Midi nat nat nat

definition process_event ::
  "int \<Rightarrow> bool \<Rightarrow> bool \<Rightarrow> midi_event \<Rightarrow> tract \<Rightarrow> tract_error + tract" where
  "process_event jack_rate ok1 ok2 ev s =
     (case ev of Midi b0 b1 b2 \<Rightarrow>
        (let type = 16 * (b0 div 16); chan = b0 mod 16
         in if type = 176 then
              (if b1 = 24 then
                 resize_tract jack_rate ok1 ok2
                   (map2range b2 CONTROLLER_TRACT_LENGTH_MIN CONTROLLER_TRACT_LENGTH_MAX) s
               else if b1 = 22 then
                 Inr (s\<lparr>ambient_phoneme := (ambient_phoneme s)\<lparr>tongue_height := map2range b2 0 1\<rparr>\<rparr>)
               else if b1 = 21 then
                 Inr (s\<lparr>ambient_phoneme := (ambient_phoneme s)\<lparr>tongue_position := map2range b2 0 1\<rparr>\<rparr>)
               else if b1 = 23 then
                 Inr (s\<lparr>ambient_phoneme := (ambient_phoneme s)\<lparr>lips_roundedness := map2range b2 0 1\<rparr>\<rparr>)
               else if b1 = 25 then
                 Inr (s\<lparr>interpolation_drag := map2range b2 DRAG_MIN DRAG_MAX\<rparr>)
               else if b1 = 26 then
                 Inr (s\<lparr>diaphram_pressure :=
                          map2range b2 MIN_DIAPHRAM_PRESSURE MAX_DIAPHRAM_PRESSURE\<rparr>)
               else if b1 = 27 then
                 Inr (s\<lparr>damping := map2range b2 MIN_DAMPING MAX_DAMPING\<rparr>)
               else Inr s)
            else if type = 128 \<and> chan = 9 then Inr s
            else if type = 144 \<and> chan = 9 then
              Inr (s\<lparr>ambient_phoneme := deref s (get_mapped_phoneme b1)\<rparr>)
            else Inr s))"

text \<open>The global variables as \<^verbatim>\<open>main\<close> sets them before it calls \<^verbatim>\<open>init_tract\<close>.\<close>

definition main_globals :: tract where
  "main_globals =
     \<lparr>rate = 0, unit_length = 0, tract_length = 0, nsegments = 0,
      buffer1 = [], buffer2 = [], front_is_buffer1 = True,
      ambient_phoneme = \<lparr>tongue_height = 0, tongue_position = 1 / 2, lips_roundedness = 0\<rparr>,
      target_phoneme = PTR_AMBIENT,
      current_phoneme = \<lparr>tongue_height = 0, tongue_position = 1 / 2, lips_roundedness = 0\<rparr>,
      interpolation_drag = DEFAULT_INTERPOLATION_DRAG,
      diaphram_pressure = 0,
      damping = DEFAULT_DAMPING,
      rand_calls = 0\<rparr>"

text \<open>
  The states the model reaches at the sample rate \<open>jack_rate\<close>: after
  \<^verbatim>\<open>init_tract(TRACT_LENGTH)\<close>, after an event that \<open>valid\<close> admits, and after a sample.
  \<open>midi_data\<close> admits the events whose two data bytes are MIDI data bytes (at most
  127).  These are the states of the program up to the first chain whose tongue zone is
  one segment: there the program goes on with an impedance that is not a number, and
  the model has no state.
\<close>

definition midi_data :: "midi_event \<Rightarrow> bool" where
  "midi_data ev = (case ev of Midi b0 b1 b2 \<Rightarrow> b1 \<le> 127 \<and> b2 \<le> 127)"

inductive reachable :: "(midi_event \<Rightarrow> bool) \<Rightarrow> int \<Rightarrow> tract \<Rightarrow> bool"
  for valid :: "midi_event \<Rightarrow> bool" and jack_rate :: int where
  reach_init:
    "0 < jack_rate \<Longrightarrow> init_tract jack_rate ok1 ok2 TRACT_LENGTH main_globals = Inr s
       \<Longrightarrow> reachable valid jack_rate s"
| reach_event:
    "reachable valid jack_rate s \<Longrightarrow> valid ev
       \<Longrightarrow> process_event jack_rate ok1 ok2 ev s = Inr s'
       \<Longrightarrow> reachable valid jack_rate s'"
| reach_sample:
    "reachable valid jack_rate s \<Longrightarrow> run_tract rand_max rnd s glottal_source = Some (dr, s')
       \<Longrightarrow> reachable valid jack_rate s'"
subsection \<open>Notions of the statements\<close>

text \<open>
  The segment count that \<^verbatim>\<open>init_tract\<close> computes from the sample rate and the desired
  length, and the two cut points that \<^verbatim>\<open>update_shape\<close> computes from the segment count
  (its local variables \<^verbatim>\<open>start\<close> and \<^verbatim>\<open>stop\<close>).  They are the integer parts of the
  exact quotient and of the exact products; the program takes the integer parts of the
  rounded ones, which are the same unless the exact value is within the rounding error
  of an integer.
\<close>

definition segment_count :: "int \<Rightarrow> real \<Rightarrow> int" where
  "segment_count jack_rate desired_length =
     c_int (desired_length / (SPEED_OF_SOUND / real_of_int jack_rate))"

definition tongue_start :: "int \<Rightarrow> int" where
  "tongue_start n = c_int (TONGUE_BACK * real_of_int n)"

definition tongue_stop :: "int \<Rightarrow> int" where
  "tongue_stop n = c_int (TONGUE_FRONT * real_of_int n)"

text \<open>
  The target impedance that the body of \<^verbatim>\<open>update_shape\<close> gives the segment \<open>i\<close>, as one
  expression; it is the program's value when the tongue zone does not have exactly one
  segment (lemma \<open>shape_segment_Some\<close> below).
\<close>

definition shape_target_z :: "Phoneme \<Rightarrow> int \<Rightarrow> int \<Rightarrow> real" where
  "shape_target_z cur n i =
     (if i < tongue_start n then THROAT_Z
      else if i \<ge> tongue_stop n then 1 / (1 - lips_roundedness cur + MIN_AREA) * NEUTRAL_Z
      else 1 / (1 - cos ((real_of_int (i - tongue_start n)
                            / real_of_int (tongue_stop n - tongue_start n - 1)
                          - tongue_position cur) * pi / 2) * tongue_height cur
                + MIN_AREA) * NEUTRAL_Z)"

text \<open>
  The guard \<^verbatim>\<open>if (area < 0) area = MIN_AREA\<close> of both loops of \<^verbatim>\<open>run_tract\<close>, and the two
  terms \<^verbatim>\<open>reflection * (1 - old->rigidity)\<close> that the second loop adds to the area of the
  segment \<open>i\<close>: the one of the sound moving right (none at the glottis) and the one of
  the sound moving left.  The terms are those of a chain of numbers: the product of a
  reflection with \<open>1 - rigidity = 0\<close> is 0 here, and it is not a number in the program
  when the reflection is not.
\<close>

definition clamp_area :: "real \<Rightarrow> real" where
  "clamp_area a = (if a < 0 then MIN_AREA else a)"

definition wall_right :: "Segment list \<Rightarrow> nat \<Rightarrow> real" where
  "wall_right front i =
     (if i = 0 then 0
      else right (front ! (i - 1)) * reflection (z (front ! (i - 1))) (z (front ! i))
             * (1 - rigidity (front ! i)))"

definition wall_left :: "int \<Rightarrow> Segment list \<Rightarrow> nat \<Rightarrow> real" where
  "wall_left n front i =
     (if int i = n - 1
      then right (front ! i) * reflection (z (front ! i)) DRAIN_Z * (1 - rigidity (front ! i))
      else left (front ! (i + 1)) * reflection (z (front ! (i + 1))) (z (front ! i))
             * (1 - rigidity (front ! i)))"

text \<open>
  What the second loop leaves in \<^verbatim>\<open>left\<close> and \<^verbatim>\<open>right\<close> of the back buffer's segment \<open>i\<close>
  when all segments of the front buffer have the impedance \<open>z0\<close> (lemma
  \<open>scatter_pass_waves_uniform\<close> below).
\<close>

definition uniform_left :: "real \<Rightarrow> real \<Rightarrow> Segment list \<Rightarrow> nat \<Rightarrow> real" where
  "uniform_left z0 d front i =
     (if Suc i = length front then right (front ! i) * reflection z0 DRAIN_Z * (1 - d)
      else left (front ! Suc i))"

definition uniform_right :: "real \<Rightarrow> real \<Rightarrow> real \<Rightarrow> real \<Rightarrow> Segment list \<Rightarrow> nat \<Rightarrow> real" where
  "uniform_right z0 d p g front i =
     (if i = 0 then left (front ! 0) * (1 - d) + g * (1 - reflection DRAIN_Z z0) + p
      else right (front ! (i - 1)))"

text \<open>
  The total squared amplitude of the travelling waves of a buffer, and the three fields
  of a phoneme.
\<close>

definition wave_energy :: "Segment list \<Rightarrow> real" where
  "wave_energy xs = sum_list (map (\<lambda>s. left s ^ 2 + right s ^ 2) xs)"

definition phoneme_fields :: "(Phoneme \<Rightarrow> real) list" where
  "phoneme_fields = [tongue_height, tongue_position, lips_roundedness]"

text \<open>
  Invariants of the reachable states: both buffers have \<^verbatim>\<open>nsegments\<close> segments, all of
  rigidity 1; the tongue height and the lips roundedness of a phoneme are in \<open>[0, 1]\<close>;
  all impedances and target impedances are positive.
\<close>

definition rigid_chain :: "tract \<Rightarrow> bool" where
  "rigid_chain s \<longleftrightarrow>
     length (buffer1 s) = nat (nsegments s) \<and> length (buffer2 s) = nat (nsegments s)
     \<and> list_all (\<lambda>seg. rigidity seg = 1) (buffer1 s)
     \<and> list_all (\<lambda>seg. rigidity seg = 1) (buffer2 s)"

definition in_range :: "Phoneme \<Rightarrow> bool" where
  "in_range p \<longleftrightarrow>
     0 \<le> tongue_height p \<and> tongue_height p \<le> 1
     \<and> 0 \<le> lips_roundedness p \<and> lips_roundedness p \<le> 1"

definition positive_chain :: "tract \<Rightarrow> bool" where
  "positive_chain s \<longleftrightarrow>
     rigid_chain s
     \<and> in_range (ambient_phoneme s) \<and> in_range (current_phoneme s)
     \<and> 0 \<le> interpolation_drag s \<and> interpolation_drag s \<le> 1
     \<and> list_all (\<lambda>seg. 0 < z seg \<and> 0 < target_z seg) (buffer1 s)
     \<and> list_all (\<lambda>seg. 0 < z seg \<and> 0 < target_z seg) (buffer2 s)"

subsection \<open>Concrete chains\<close>

text \<open>
  A chain with the given front buffer and the global variables of \<^verbatim>\<open>main\<close>, a
  generator that always returns 0, and the chains the statements below are evaluated
  on: one segment with a left-going amplitude; 22 segments with the preset U; three
  segments of impedances 5, 1, 1 with a right-going amplitude; three segments of
  impedance 1 with two amplitudes.
\<close>

definition demo_chain :: "Segment list \<Rightarrow> tract" where
  "demo_chain xs =
     main_globals\<lparr>nsegments := int (length xs), buffer1 := xs,
                  buffer2 := replicate (length xs) neutral_segment\<rparr>"

definition rand_zero :: "nat \<Rightarrow> int" where
  "rand_zero k = 0"

definition glottis_state :: tract where
  "glottis_state = demo_chain [neutral_segment\<lparr>left := 1\<rparr>]"

definition shape_demo_state :: tract where
  "shape_demo_state =
     (demo_chain (replicate 22 neutral_segment))\<lparr>current_phoneme := PHONEME_U\<rparr>"

definition energy_state :: tract where
  "energy_state =
     demo_chain [\<lparr>z = 5, target_z = 5, rigidity = 1, left = 0, right = 1\<rparr>,
                 neutral_segment, neutral_segment]"

definition uniform_state :: tract where
  "uniform_state =
     demo_chain [neutral_segment\<lparr>right := 1\<rparr>, neutral_segment\<lparr>left := 1\<rparr>,
                 neutral_segment]"





section \<open>Lemmas\<close>

subsection \<open>Updates of the back buffer\<close>

lemma length_add_left [simp]: "length (add_left xs i v) = length xs"
  by (simp add: add_left_def)

lemma length_add_right [simp]: "length (add_right xs i v) = length xs"
  by (simp add: add_right_def)

lemma length_put_z [simp]: "length (put_z xs i v) = length xs"
  by (simp add: put_z_def)

lemma nth_upd_cases:
  "xs[i := f (xs ! i)] ! j = (if j = i \<and> i < length xs then f (xs ! j) else xs ! j)"
  by (cases "i < length xs") (auto simp: nth_list_update list_update_beyond)

lemma add_left_fields [simp]:
  "left (add_left xs i v ! j) = (if j = i \<and> i < length xs then left (xs ! j) + v else left (xs ! j))"
  "right (add_left xs i v ! j) = right (xs ! j)"
  "z (add_left xs i v ! j) = z (xs ! j)"
  "target_z (add_left xs i v ! j) = target_z (xs ! j)"
  "rigidity (add_left xs i v ! j) = rigidity (xs ! j)"
  unfolding add_left_def
  by (simp_all add: nth_upd_cases [where f = "\<lambda>s. s\<lparr>left := left s + v\<rparr>"])

lemma add_right_fields [simp]:
  "right (add_right xs i v ! j) = (if j = i \<and> i < length xs then right (xs ! j) + v else right (xs ! j))"
  "left (add_right xs i v ! j) = left (xs ! j)"
  "z (add_right xs i v ! j) = z (xs ! j)"
  "target_z (add_right xs i v ! j) = target_z (xs ! j)"
  "rigidity (add_right xs i v ! j) = rigidity (xs ! j)"
  unfolding add_right_def
  by (simp_all add: nth_upd_cases [where f = "\<lambda>s. s\<lparr>right := right s + v\<rparr>"])

lemma put_z_fields [simp]:
  "z (put_z xs i v ! j) = (if j = i \<and> i < length xs then v else z (xs ! j))"
  "left (put_z xs i v ! j) = left (xs ! j)"
  "right (put_z xs i v ! j) = right (xs ! j)"
  "target_z (put_z xs i v ! j) = target_z (xs ! j)"
  "rigidity (put_z xs i v ! j) = rigidity (xs ! j)"
  unfolding put_z_def
  by (simp_all add: nth_upd_cases [where f = "\<lambda>s. s\<lparr>z := v\<rparr>"])

subsection \<open>One segment of the scattering loop\<close>

lemma length_scatter_segment:
  "length (fst (scatter_segment rm rnd d p g n front i (bk, dr, c))) = length bk"
  by (simp add: scatter_segment_def scatter_rightward_def scatter_leftward_def Let_def
        split: prod.splits)

lemma scatter_segment_z:
  assumes "i < length bk" "j < length bk"
  shows "z (fst (scatter_segment rm rnd d p g n front i (bk, dr, c)) ! j) =
          (if j = i then 1 / clamp_area (1 / z (bk ! i) + wall_right front i + wall_left n front i)
           else z (bk ! j))"
  using assms
  by (auto simp add: scatter_segment_def scatter_rightward_def scatter_leftward_def Let_def
         clamp_area_def wall_right_def wall_left_def
        split: prod.splits)

lemma scatter_segment_rest:
  assumes "i < length bk" "j < length bk"
  shows "target_z (fst (scatter_segment rm rnd d p g n front i (bk, dr, c)) ! j) = target_z (bk ! j)"
    and "rigidity (fst (scatter_segment rm rnd d p g n front i (bk, dr, c)) ! j) = rigidity (bk ! j)"
  using assms
  by (simp_all add: scatter_segment_def scatter_rightward_def scatter_leftward_def Let_def
        
        split: prod.splits)

lemma scatter_segment_right0:
  assumes "i < length bk"
  shows "right (fst (scatter_segment rm rnd d p g n front i (bk, dr, c)) ! 0) =
          (if i = 0
           then right (bk ! 0)
                + (left (front ! 0) * (1 - d) + g * (1 - reflection DRAIN_Z (z (front ! 0))) + p)
           else right (bk ! 0))"
  using assms
  by (auto simp add: scatter_segment_def scatter_rightward_def scatter_leftward_def Let_def
        split: prod.splits)

lemma fold_upt_Suc: "fold f [0..<Suc k] x = f k (fold f [0..<k] x)"
  by simp

lemma scatter_fold_frame:
  assumes "k \<le> length bk0"
    and "fold (scatter_segment rm rnd d p g n front) [0..<k] (bk0, dr0, c0) = (bk, dr, c)"
  shows "length bk = length bk0
       \<and> (\<forall>j<length bk0.
             z (bk ! j) =
               (if j < k
                then 1 / clamp_area (1 / z (bk0 ! j) + wall_right front j + wall_left n front j)
                else z (bk0 ! j))
           \<and> target_z (bk ! j) = target_z (bk0 ! j)
           \<and> rigidity (bk ! j) = rigidity (bk0 ! j))
       \<and> (0 < length bk0 \<longrightarrow> right (bk ! 0) =
             (if 0 < k
              then right (bk0 ! 0)
                   + (left (front ! 0) * (1 - d) + g * (1 - reflection DRAIN_Z (z (front ! 0))) + p)
              else right (bk0 ! 0)))"
  using assms
proof (induction k arbitrary: bk dr c)
  case 0
  then show ?case by simp
next
  case (Suc k)
  obtain bk' dr' c' where prev:
    "fold (scatter_segment rm rnd d p g n front) [0..<k] (bk0, dr0, c0) = (bk', dr', c')"
    by (metis prod_cases3)
  have kl: "k < length bk0" using Suc.prems(1) by simp
  have ih: "length bk' = length bk0
       \<and> (\<forall>j<length bk0.
             z (bk' ! j) =
               (if j < k
                then 1 / clamp_area (1 / z (bk0 ! j) + wall_right front j + wall_left n front j)
                else z (bk0 ! j))
           \<and> target_z (bk' ! j) = target_z (bk0 ! j)
           \<and> rigidity (bk' ! j) = rigidity (bk0 ! j))
       \<and> (0 < length bk0 \<longrightarrow> right (bk' ! 0) =
             (if 0 < k
              then right (bk0 ! 0)
                   + (left (front ! 0) * (1 - d) + g * (1 - reflection DRAIN_Z (z (front ! 0))) + p)
              else right (bk0 ! 0)))"
    using Suc.IH [OF _ prev] kl by simp
  have step: "scatter_segment rm rnd d p g n front k (bk', dr', c') = (bk, dr, c)"
    using Suc.prems(2) prev by (simp only: fold_upt_Suc)
  have bk: "bk = fst (scatter_segment rm rnd d p g n front k (bk', dr', c'))"
    using step by simp
  have kl': "k < length bk'" using kl ih by simp
  have len: "length bk = length bk0"
    using ih by (simp add: bk length_scatter_segment)
  have zs: "\<forall>j<length bk0.
             z (bk ! j) =
               (if j < Suc k
                then 1 / clamp_area (1 / z (bk0 ! j) + wall_right front j + wall_left n front j)
                else z (bk0 ! j))
           \<and> target_z (bk ! j) = target_z (bk0 ! j)
           \<and> rigidity (bk ! j) = rigidity (bk0 ! j)"
  proof (intro allI impI)
    fix j assume j: "j < length bk0"
    then have j': "j < length bk'" using ih by simp
    show "z (bk ! j) =
               (if j < Suc k
                then 1 / clamp_area (1 / z (bk0 ! j) + wall_right front j + wall_left n front j)
                else z (bk0 ! j))
           \<and> target_z (bk ! j) = target_z (bk0 ! j)
           \<and> rigidity (bk ! j) = rigidity (bk0 ! j)"
      using ih j kl
      by (auto simp add: bk scatter_segment_z [OF kl' j'] scatter_segment_rest [OF kl' j'])
  qed
  have r0: "0 < length bk0 \<longrightarrow> right (bk ! 0) =
             (if 0 < Suc k
              then right (bk0 ! 0)
                   + (left (front ! 0) * (1 - d) + g * (1 - reflection DRAIN_Z (z (front ! 0))) + p)
              else right (bk0 ! 0))"
    using ih by (auto simp add: bk scatter_segment_right0 [OF kl'])
  show ?case using len zs r0 by blast
qed

subsection \<open>The shape function\<close>

lemma those_map_Some:
  "those (map f xs) = Some ys \<Longrightarrow>
     length ys = length xs \<and> (\<forall>i<length xs. f (xs ! i) = Some (ys ! i))"
proof (induction xs arbitrary: ys)
  case Nil
  then show ?case by simp
next
  case (Cons x xs)
  from Cons.prems obtain y ys' where
    fx: "f x = Some y" and rest: "those (map f xs) = Some ys'" and ys: "ys = y # ys'"
    by (auto split: option.splits)
  have ih: "length ys' = length xs \<and> (\<forall>i<length xs. f (xs ! i) = Some (ys' ! i))"
    using Cons.IH [OF rest] .
  show ?case
  proof (intro conjI allI impI)
    show "length ys = length (x # xs)" using ih ys by simp
  next
    fix i assume "i < length (x # xs)"
    then show "f ((x # xs) ! i) = Some (ys ! i)"
      using ih fx ys by (cases i) simp_all
  qed
qed

lemma those_map_None:
  "those (map f xs) = None \<longleftrightarrow> (\<exists>x\<in>set xs. f x = None)"
  by (induction xs) (auto split: option.splits)

lemma shape_segment_Some:
  assumes "shape_segment cur n b i seg = Some t"
  shows "left t = left seg" and "right t = right seg"
    and "target_z t = shape_target_z cur n i"
    and "z t = (if b then shape_target_z cur n i else z seg)"
    and "rigidity t = (if i \<ge> tongue_stop n \<and> \<not> i < tongue_start n then LIPS_RIGIDITY else rigidity seg)"
  using assms
  by (auto simp add: shape_segment_def shape_target_z_def tongue_start_def tongue_stop_def
        unit_pos_def Let_def split: if_splits option.splits)

lemma shape_segment_None:
  "shape_segment cur n b i seg = None \<longleftrightarrow>
     (tongue_start n \<le> i \<and> i < tongue_stop n \<and> tongue_stop n - tongue_start n = 1)"
  by (auto simp add: shape_segment_def tongue_start_def tongue_stop_def
        unit_pos_def Let_def split: if_splits option.splits)

lemma update_shape_Some:
  assumes "update_shape b s = Some s'"
  shows "\<exists>ys. s' = set_front s ys \<and> length ys = nat (nsegments s)
          \<and> (\<forall>i<nat (nsegments s).
                shape_segment (current_phoneme s) (nsegments s) b (int i) (segments_front s ! i)
                  = Some (ys ! i))"
proof -
  from assms obtain ys where
    th: "those (map (\<lambda>i. shape_segment (current_phoneme s) (nsegments s) b (int i)
                          (segments_front s ! i)) [0..<nat (nsegments s)]) = Some ys"
    and s': "s' = set_front s ys"
    by (auto simp add: update_shape_def)
  from those_map_Some [OF th] have "length ys = nat (nsegments s)"
    and "\<forall>i<nat (nsegments s).
           shape_segment (current_phoneme s) (nsegments s) b (int i) (segments_front s ! i)
             = Some (ys ! i)"
    by simp_all
  then show ?thesis using s' by blast
qed

subsection \<open>Buffers and global variables\<close>

lemma segments_front_set_front [simp]: "segments_front (set_front s xs) = xs"
  by (simp add: segments_front_def set_front_def)

lemma segments_back_set_front [simp]: "segments_back (set_front s xs) = segments_back s"
  by (simp add: segments_back_def set_front_def)

lemma segments_back_set_back [simp]: "segments_back (set_back s xs) = xs"
  by (simp add: segments_back_def set_back_def)

lemma segments_front_set_back [simp]: "segments_front (set_back s xs) = segments_front s"
  by (simp add: segments_front_def set_back_def)

lemma segments_front_swap [simp]: "segments_front (swap_buffers s) = segments_back s"
  by (simp add: segments_front_def segments_back_def swap_buffers_def)

lemma segments_back_swap [simp]: "segments_back (swap_buffers s) = segments_front s"
  by (simp add: segments_front_def segments_back_def swap_buffers_def)

lemma set_front_scalars [simp]:
  "nsegments (set_front s xs) = nsegments s"
  "current_phoneme (set_front s xs) = current_phoneme s"
  "ambient_phoneme (set_front s xs) = ambient_phoneme s"
  "target_phoneme (set_front s xs) = target_phoneme s"
  "interpolation_drag (set_front s xs) = interpolation_drag s"
  "diaphram_pressure (set_front s xs) = diaphram_pressure s"
  "damping (set_front s xs) = damping s"
  "front_is_buffer1 (set_front s xs) = front_is_buffer1 s"
  "rate (set_front s xs) = rate s"
  "unit_length (set_front s xs) = unit_length s"
  "tract_length (set_front s xs) = tract_length s"
  by (simp_all add: set_front_def)

lemma set_back_scalars [simp]:
  "nsegments (set_back s xs) = nsegments s"
  "current_phoneme (set_back s xs) = current_phoneme s"
  "ambient_phoneme (set_back s xs) = ambient_phoneme s"
  "target_phoneme (set_back s xs) = target_phoneme s"
  "interpolation_drag (set_back s xs) = interpolation_drag s"
  "diaphram_pressure (set_back s xs) = diaphram_pressure s"
  "damping (set_back s xs) = damping s"
  "front_is_buffer1 (set_back s xs) = front_is_buffer1 s"
  by (simp_all add: set_back_def)

lemma swap_scalars [simp]:
  "nsegments (swap_buffers s) = nsegments s"
  "current_phoneme (swap_buffers s) = current_phoneme s"
  "ambient_phoneme (swap_buffers s) = ambient_phoneme s"
  "target_phoneme (swap_buffers s) = target_phoneme s"
  "interpolation_drag (swap_buffers s) = interpolation_drag s"
  "diaphram_pressure (swap_buffers s) = diaphram_pressure s"
  "damping (swap_buffers s) = damping s"
  "front_is_buffer1 (swap_buffers s) = (\<not> front_is_buffer1 s)"
  by (simp_all add: swap_buffers_def)

lemma articulate_fields [simp]:
  "nsegments (articulate s) = nsegments s"
  "segments_front (articulate s) = segments_front s"
  "segments_back (articulate s) = segments_back s"
  "ambient_phoneme (articulate s) = ambient_phoneme s"
  "target_phoneme (articulate s) = target_phoneme s"
  "interpolation_drag (articulate s) = interpolation_drag s"
  "diaphram_pressure (articulate s) = diaphram_pressure s"
  "damping (articulate s) = damping s"
  "front_is_buffer1 (articulate s) = front_is_buffer1 s"
  by (simp_all add: articulate_def segments_front_def segments_back_def)

subsection \<open>The two loops and the whole sample\<close>

lemma scatter_pass_frame:
  assumes "scatter_pass rm rnd s g = (bk, dr, c)"
  shows "length bk = nat (nsegments s)"
    and "\<And>j. j < nat (nsegments s) \<Longrightarrow>
           z (bk ! j) = 1 / clamp_area (1 / z (carry_over (segments_front s ! j))
                                         + wall_right (segments_front s) j
                                         + wall_left (nsegments s) (segments_front s) j)"
    and "\<And>j. j < nat (nsegments s) \<Longrightarrow> target_z (bk ! j) = target_z (segments_front s ! j)"
    and "\<And>j. j < nat (nsegments s) \<Longrightarrow> rigidity (bk ! j) = rigidity (segments_front s ! j)"
    and "0 < nsegments s \<Longrightarrow>
           right (bk ! 0) = left (segments_front s ! 0) * (1 - damping s)
              + g * (1 - reflection DRAIN_Z (z (segments_front s ! 0))) + diaphram_pressure s"
proof -
  let ?N = "nat (nsegments s)"
  let ?bk0 = "map (\<lambda>i. carry_over (segments_front s ! i)) [0..<?N]"
  have f: "fold (scatter_segment rm rnd (damping s) (diaphram_pressure s) g (nsegments s)
                   (segments_front s)) [0..<?N] (?bk0, 0, rand_calls s) = (bk, dr, c)"
    using assms by (simp add: scatter_pass_def Let_def)
  have len0: "length ?bk0 = ?N" by simp
  note fr = scatter_fold_frame [OF _ f, unfolded len0, OF le_refl]
  show "length bk = ?N" using fr by simp
  show "\<And>j. j < ?N \<Longrightarrow>
           z (bk ! j) = 1 / clamp_area (1 / z (carry_over (segments_front s ! j))
                                         + wall_right (segments_front s) j
                                         + wall_left (nsegments s) (segments_front s) j)"
    using fr by simp
  show "\<And>j. j < ?N \<Longrightarrow> target_z (bk ! j) = target_z (segments_front s ! j)"
    using fr by (simp add: carry_over_def Let_def)
  show "\<And>j. j < ?N \<Longrightarrow> rigidity (bk ! j) = rigidity (segments_front s ! j)"
    using fr by (simp add: carry_over_def Let_def)
  show "0 < nsegments s \<Longrightarrow>
           right (bk ! 0) = left (segments_front s ! 0) * (1 - damping s)
              + g * (1 - reflection DRAIN_Z (z (segments_front s ! 0))) + diaphram_pressure s"
    using fr by (simp add: carry_over_def Let_def)
qed

lemma rand_calls_update_fields [simp]:
  "segments_front (s\<lparr>rand_calls := c\<rparr>) = segments_front s"
  "segments_back (s\<lparr>rand_calls := c\<rparr>) = segments_back s"
  by (simp_all add: segments_front_def segments_back_def)

lemma swap_rand_calls [simp]:
  "segments_front (swap_buffers (s\<lparr>rand_calls := c\<rparr>)) = segments_back s"
  "segments_back (swap_buffers (s\<lparr>rand_calls := c\<rparr>)) = segments_front s"
  by (simp_all add: segments_front_def segments_back_def swap_buffers_def)

lemma run_tract_Some:
  assumes "run_tract rm rnd s g = Some (d, s')"
  obtains bk c where "scatter_pass rm rnd s g = (bk, d, c)"
    and "update_shape False (articulate (swap_buffers ((set_back s bk)\<lparr>rand_calls := c\<rparr>))) = Some s'"
proof -
  obtain bk dr c where sp: "scatter_pass rm rnd s g = (bk, dr, c)"
    by (metis prod_cases3)
  from assms sp have "dr = d"
    and "update_shape False (articulate (swap_buffers ((set_back s bk)\<lparr>rand_calls := c\<rparr>))) = Some s'"
    by (auto simp add: run_tract_def Let_def)
  with sp that show thesis by blast
qed

lemma update_shape_defined:
  assumes "tongue_stop (nsegments s) - tongue_start (nsegments s) \<noteq> 1"
  shows "\<exists>s'. update_shape b s = Some s'"
proof -
  have "those (map (\<lambda>i. shape_segment (current_phoneme s) (nsegments s) b (int i)
                          (segments_front s ! i)) [0..<nat (nsegments s)]) \<noteq> None"
    using assms by (simp add: those_map_None shape_segment_None)
  then show ?thesis by (auto simp add: update_shape_def)
qed

lemma run_tract_defined:
  assumes "tongue_stop (nsegments s) - tongue_start (nsegments s) \<noteq> 1"
  shows "\<exists>d s'. run_tract rm rnd s g = Some (d, s')"
proof -
  obtain bk dr c where sp: "scatter_pass rm rnd s g = (bk, dr, c)"
    by (metis prod_cases3)
  let ?s2 = "articulate (swap_buffers ((set_back s bk)\<lparr>rand_calls := c\<rparr>))"
  have "nsegments ?s2 = nsegments s" by (simp add: swap_buffers_def set_back_def)
  then obtain s' where "update_shape False ?s2 = Some s'"
    using update_shape_defined [of ?s2 False] assms by auto
  then show ?thesis using sp by (simp add: run_tract_def Let_def)
qed

lemma run_tract_front:
  assumes "run_tract rm rnd s g = Some (d, s')"
    and "scatter_pass rm rnd s g = (bk, dr, c)"
  shows "d = dr"
    and "nsegments s' = nsegments s"
    and "length (segments_front s') = nat (nsegments s)"
    and "segments_back s' = segments_front s"
    and "front_is_buffer1 s' = (\<not> front_is_buffer1 s)"
    and "\<And>j. j < nat (nsegments s) \<Longrightarrow>
           left (segments_front s' ! j) = left (bk ! j)
         \<and> right (segments_front s' ! j) = right (bk ! j)
         \<and> z (segments_front s' ! j) = z (bk ! j)"
proof -
  let ?s2 = "articulate (swap_buffers ((set_back s bk)\<lparr>rand_calls := c\<rparr>))"
  from run_tract_Some [OF assms(1)] assms(2)
  have d: "d = dr" and us: "update_shape False ?s2 = Some s'"
    by auto
  have n2: "nsegments ?s2 = nsegments s" by (simp add: swap_buffers_def set_back_def)
  have f2: "segments_front ?s2 = bk" by simp
  have b2: "segments_back ?s2 = segments_front s" by simp
  have fl2: "front_is_buffer1 ?s2 = (\<not> front_is_buffer1 s)"
    by (simp add: swap_buffers_def set_back_def)
  from update_shape_Some [OF us] obtain ys where
    s': "s' = set_front ?s2 ys" and len: "length ys = nat (nsegments s)"
    and seg: "\<forall>i<nat (nsegments s).
                shape_segment (current_phoneme ?s2) (nsegments s) False (int i) (bk ! i)
                  = Some (ys ! i)"
    unfolding n2 f2 by blast
  show "d = dr" by (rule d)
  show "nsegments s' = nsegments s" using s' n2 by simp
  show "length (segments_front s') = nat (nsegments s)" using s' len by simp
  show "segments_back s' = segments_front s" using s' b2 by simp
  show "front_is_buffer1 s' = (\<not> front_is_buffer1 s)" using s' fl2 by simp
  show "\<And>j. j < nat (nsegments s) \<Longrightarrow>
           left (segments_front s' ! j) = left (bk ! j)
         \<and> right (segments_front s' ! j) = right (bk ! j)
         \<and> z (segments_front s' ! j) = z (bk ! j)"
  proof -
    fix j assume "j < nat (nsegments s)"
    with seg have "shape_segment (current_phoneme ?s2) (nsegments s) False (int j) (bk ! j)
                  = Some (ys ! j)" by simp
    from shape_segment_Some(1,2,4) [OF this] s'
    show "left (segments_front s' ! j) = left (bk ! j)
         \<and> right (segments_front s' ! j) = right (bk ! j)
         \<and> z (segments_front s' ! j) = z (bk ! j)" by simp
  qed
qed

subsection \<open>The cut points of the tongue zone\<close>

lemma tongue_zone_bounds:
  assumes "0 \<le> n"
  shows "0 \<le> tongue_start n" and "tongue_start n \<le> tongue_stop n" and "tongue_stop n \<le> n"
proof -
  have n: "0 \<le> real_of_int n" using assms by simp
  have a: "0 \<le> TONGUE_BACK * real_of_int n" "0 \<le> TONGUE_FRONT * real_of_int n"
    using n by (simp_all add: TONGUE_BACK_def TONGUE_FRONT_def)
  show "0 \<le> tongue_start n" using a by (simp add: tongue_start_def c_int_def)
  have "TONGUE_BACK * real_of_int n \<le> TONGUE_FRONT * real_of_int n"
    using n by (simp add: TONGUE_BACK_def TONGUE_FRONT_def)
  then show "tongue_start n \<le> tongue_stop n"
    using a by (simp add: tongue_start_def tongue_stop_def c_int_def floor_mono)
  have "TONGUE_FRONT * real_of_int n \<le> real_of_int n"
    using n by (simp add: TONGUE_FRONT_def)
  then show "tongue_stop n \<le> n"
    using a by (simp add: tongue_stop_def c_int_def floor_le_iff)
qed

lemma tongue_zone_negative:
  assumes "n < 0"
  shows "tongue_stop n \<le> tongue_start n"
proof -
  have n: "real_of_int n < 0" using assms by simp
  have a: "\<not> 0 \<le> TONGUE_BACK * real_of_int n" "\<not> 0 \<le> TONGUE_FRONT * real_of_int n"
    using n by (simp_all add: TONGUE_BACK_def TONGUE_FRONT_def mult_less_0_iff)
  have "TONGUE_FRONT * real_of_int n \<le> TONGUE_BACK * real_of_int n"
    using n by (simp add: TONGUE_BACK_def TONGUE_FRONT_def)
  then show ?thesis
    using a by (simp add: tongue_start_def tongue_stop_def c_int_def ceiling_mono)
qed

lemma tongue_bounds_1: "tongue_start 1 = 0" "tongue_stop 1 = 0"
  by (simp_all add: tongue_start_def tongue_stop_def c_int_def TONGUE_BACK_def TONGUE_FRONT_def)

subsection \<open>Initialisation and resizing\<close>

lemma init_loop_step:
  assumes "k < length xs" and "k < length ys"
  shows "(replicate k a @ drop k xs)[k := a] = replicate (Suc k) a @ drop (Suc k) xs"
proof -
  have "drop k xs = xs ! k # drop (Suc k) xs"
    using assms(1) by (simp add: Cons_nth_drop_Suc)
  then show ?thesis
    by (simp add: list_update_append replicate_app_Cons_same)
qed

lemma init_loop_ok:
  assumes "k \<le> length xs" and "k \<le> length ys"
  shows "fold init_segment [0..<k] (Inr (Some xs, Some ys)) =
           Inr (Some (replicate k neutral_segment @ drop k xs),
                Some (replicate k neutral_segment @ drop k ys))"
  using assms
proof (induction k)
  case 0
  then show ?case by simp
next
  case (Suc k)
  then have ih: "fold init_segment [0..<k] (Inr (Some xs, Some ys)) =
           Inr (Some (replicate k neutral_segment @ drop k xs),
                Some (replicate k neutral_segment @ drop k ys))"
    by simp
  have k: "k < length xs" "k < length ys" using Suc.prems by simp_all
  show ?case
    unfolding fold_upt_Suc ih
    by (simp only: init_segment_def sum.case prod.case option.case
          init_loop_step [OF k] init_loop_step [OF k(2) k(1)])
qed

lemma init_loop_null:
  assumes "0 < k" and "p = None \<or> q = None"
  shows "fold init_segment [0..<k] (Inr (p, q)) =
           Inl (case p of None \<Rightarrow> (None, q)
                | Some f \<Rightarrow> (Some (f[0 := neutral_segment]), None))"
  using assms(1)
proof (induction k)
  case 0
  then show ?case by simp
next
  case (Suc k)
  show ?case
  proof (cases "k = 0")
    case True
    then show ?thesis
      using assms(2) by (auto simp add: init_segment_def split: option.splits)
  next
    case False
    then have "fold init_segment [0..<k] (Inr (p, q)) =
           Inl (case p of None \<Rightarrow> (None, q)
                | Some f \<Rightarrow> (Some (f[0 := neutral_segment]), None))"
      using Suc.IH by simp
    then show ?thesis
      unfolding fold_upt_Suc by (simp add: init_segment_def)
  qed
qed

lemma init_tract_eq:
  "init_tract jack_rate ok1 ok2 desired_length s =
     (let ul = SPEED_OF_SOUND / real_of_int jack_rate;
          n = c_int (desired_length / ul);
          tl = real_of_int n * ul
      in if 0 < n \<and> \<not> (ok1 \<and> ok2) then
           Inl (NullDeref
                  (s\<lparr>rate := jack_rate, unit_length := ul, tract_length := tl,
                     nsegments := n,
                     buffer1 := (if ok1 then (replicate (nat n) fresh_segment)[0 := neutral_segment]
                                 else []),
                     buffer2 := (if ok2 then replicate (nat n) fresh_segment else []),
                     front_is_buffer1 := True\<rparr>))
         else
           (case update_shape True
                   (s\<lparr>rate := jack_rate, unit_length := ul, tract_length := tl,
                      nsegments := n,
                      buffer1 := replicate (nat n) neutral_segment,
                      buffer2 := replicate (nat n) neutral_segment,
                      front_is_buffer1 := True\<rparr>) of
              None \<Rightarrow> Inl NotANumber
            | Some s' \<Rightarrow> Inr s'))"
proof -
  define n where "n = c_int (desired_length / (SPEED_OF_SOUND / real_of_int jack_rate))"
  let ?loop = "fold init_segment [0..<nat n]
                 (Inr (malloc_segments ok1 (nat n), malloc_segments ok2 (nat n)))"
  have fail: "?loop = Inl (if ok1 then (Some ((replicate (nat n) fresh_segment)[0 := neutral_segment]), None)
                           else (None, malloc_segments ok2 (nat n)))"
    if "0 < n" "\<not> (ok1 \<and> ok2)"
  proof -
    have k: "0 < nat n" using that(1) by simp
    have pq: "malloc_segments ok1 (nat n) = None \<or> malloc_segments ok2 (nat n) = None"
      using that(2) by (auto simp add: malloc_segments_def)
    show ?thesis
      unfolding init_loop_null [OF k pq] by (simp add: malloc_segments_def)
  qed
  have ok: "fold init_segment [0..<nat n]
                 (Inr (malloc_segments True (nat n), malloc_segments True (nat n)))
              = Inr (Some (replicate (nat n) neutral_segment),
                     Some (replicate (nat n) neutral_segment))"
    using init_loop_ok [of "nat n" "replicate (nat n) fresh_segment"
                          "replicate (nat n) fresh_segment"]
    by (simp add: malloc_segments_def)
  have none: "array_of (malloc_segments b 0) = []" for b
    by (simp add: array_of_def malloc_segments_def)
  have empty: "?loop = Inr (malloc_segments ok1 0, malloc_segments ok2 0)" if "\<not> 0 < n"
    using that by simp
  show ?thesis
  proof (cases "0 < n")
    case True
    show ?thesis
    proof (cases "ok1 \<and> ok2")
      case True
      then show ?thesis
        unfolding init_tract_def Let_def n_def [symmetric]
        by (simp add: ok array_of_def)
    next
      case False
      note l = fail [OF \<open>0 < n\<close> False]
      show ?thesis
        unfolding init_tract_def Let_def n_def [symmetric] l
        using \<open>0 < n\<close> False by (auto simp add: array_of_def malloc_segments_def)
    qed
  next
    case False
    then show ?thesis
      unfolding init_tract_def Let_def n_def [symmetric]
      by (simp add: empty none)
  qed
qed

lemma init_tract_NullDeref:
  assumes "\<not> (ok1 \<and> ok2)" and "0 < segment_count jack_rate desired_length"
  shows "init_tract jack_rate ok1 ok2 desired_length s =
           Inl (NullDeref
                  (s\<lparr>rate := jack_rate,
                     unit_length := SPEED_OF_SOUND / real_of_int jack_rate,
                     tract_length := real_of_int (segment_count jack_rate desired_length)
                                       * (SPEED_OF_SOUND / real_of_int jack_rate),
                     nsegments := segment_count jack_rate desired_length,
                     buffer1 := (if ok1 then (replicate (nat (segment_count jack_rate desired_length))
                                                fresh_segment)[0 := neutral_segment]
                                 else []),
                     buffer2 := (if ok2 then replicate (nat (segment_count jack_rate desired_length))
                                               fresh_segment
                                 else []),
                     front_is_buffer1 := True\<rparr>))"
  using assms by (simp add: init_tract_eq segment_count_def Let_def)

lemma init_tract_NotANumber:
  assumes "ok1 \<and> ok2"
    and "tongue_stop (segment_count jack_rate desired_length)
           - tongue_start (segment_count jack_rate desired_length) = 1"
  shows "init_tract jack_rate ok1 ok2 desired_length s = Inl NotANumber"
proof -
  let ?n = "segment_count jack_rate desired_length"
  have n0: "0 \<le> ?n"
    using assms(2) tongue_zone_negative [of ?n] by (cases "0 \<le> ?n") simp_all
  note zb = tongue_zone_bounds [OF n0]
  have idx: "nat (tongue_start ?n) < nat ?n" using assms(2) zb by linarith
  let ?s1 = "s\<lparr>rate := jack_rate, unit_length := SPEED_OF_SOUND / real_of_int jack_rate,
                tract_length := real_of_int ?n * (SPEED_OF_SOUND / real_of_int jack_rate),
                nsegments := ?n,
                buffer1 := replicate (nat ?n) neutral_segment,
                buffer2 := replicate (nat ?n) neutral_segment,
                front_is_buffer1 := True\<rparr>"
  have "shape_segment (current_phoneme ?s1) ?n True (int (nat (tongue_start ?n)))
          (segments_front ?s1 ! nat (tongue_start ?n)) = None"
    using assms(2) zb by (simp add: shape_segment_None)
  then have "update_shape True ?s1 = None"
    using idx
    by (auto simp add: update_shape_def those_map_None intro!: bexI [of _ "nat (tongue_start ?n)"])
  then show ?thesis
    using assms(1) by (simp add: init_tract_eq segment_count_def Let_def)
qed

lemma init_tract_Inr:
  assumes "init_tract jack_rate ok1 ok2 desired_length s = Inr s'"
  shows "rate s' = jack_rate"
    and "unit_length s' = SPEED_OF_SOUND / real_of_int jack_rate"
    and "nsegments s' = segment_count jack_rate desired_length"
    and "tract_length s' = real_of_int (nsegments s') * unit_length s'"
    and "front_is_buffer1 s'"
    and "length (buffer1 s') = nat (nsegments s')"
    and "buffer2 s' = replicate (nat (nsegments s')) neutral_segment"
    and "\<And>i. i < nat (nsegments s') \<Longrightarrow>
           shape_segment (current_phoneme s) (nsegments s') True (int i) neutral_segment
             = Some (buffer1 s' ! i)"
    and "current_phoneme s' = current_phoneme s"
    and "ambient_phoneme s' = ambient_phoneme s"
    and "target_phoneme s' = target_phoneme s"
    and "interpolation_drag s' = interpolation_drag s"
    and "diaphram_pressure s' = diaphram_pressure s"
    and "damping s' = damping s"
    and "nsegments s' \<le> 0 \<or> (ok1 \<and> ok2)"
proof -
  let ?n = "segment_count jack_rate desired_length"
  let ?s1 = "s\<lparr>rate := jack_rate, unit_length := SPEED_OF_SOUND / real_of_int jack_rate,
                tract_length := real_of_int ?n * (SPEED_OF_SOUND / real_of_int jack_rate),
                nsegments := ?n,
                buffer1 := replicate (nat ?n) neutral_segment,
                buffer2 := replicate (nat ?n) neutral_segment,
                front_is_buffer1 := True\<rparr>"
  from assms have us: "update_shape True ?s1 = Some s'" and ok: "?n \<le> 0 \<or> (ok1 \<and> ok2)"
    by (auto simp add: init_tract_eq segment_count_def Let_def split: if_splits option.splits)
  from update_shape_Some [OF us] obtain ys where
    s': "s' = set_front ?s1 ys" and len: "length ys = nat ?n"
    and seg: "\<forall>i<nat ?n. shape_segment (current_phoneme s) ?n True (int i)
                (segments_front ?s1 ! i) = Some (ys ! i)"
    by auto
  have b1: "buffer1 s' = ys" and b2: "buffer2 s' = replicate (nat ?n) neutral_segment"
    using s' by (simp_all add: set_front_def)
  show "rate s' = jack_rate" using s' by simp
  show "unit_length s' = SPEED_OF_SOUND / real_of_int jack_rate" using s' by simp
  show n: "nsegments s' = ?n" using s' by simp
  show "tract_length s' = real_of_int (nsegments s') * unit_length s'" using s' by simp
  show "front_is_buffer1 s'" using s' by simp
  show "length (buffer1 s') = nat (nsegments s')" using b1 len n by simp
  show "buffer2 s' = replicate (nat (nsegments s')) neutral_segment" using b2 n by simp
  show "\<And>i. i < nat (nsegments s') \<Longrightarrow>
           shape_segment (current_phoneme s) (nsegments s') True (int i) neutral_segment
             = Some (buffer1 s' ! i)"
    using seg b1 n by (simp add: segments_front_def)
  show "current_phoneme s' = current_phoneme s" using s' by simp
  show "ambient_phoneme s' = ambient_phoneme s" using s' by simp
  show "target_phoneme s' = target_phoneme s" using s' by simp
  show "interpolation_drag s' = interpolation_drag s" using s' by simp
  show "diaphram_pressure s' = diaphram_pressure s" using s' by simp
  show "damping s' = damping s" using s' by simp
  show "nsegments s' \<le> 0 \<or> (ok1 \<and> ok2)" using ok n by simp
qed

lemma init_tract_defined:
  assumes "segment_count jack_rate desired_length \<le> 0 \<or> (ok1 \<and> ok2)"
    and "tongue_stop (segment_count jack_rate desired_length)
           - tongue_start (segment_count jack_rate desired_length) \<noteq> 1"
  shows "\<exists>s'. init_tract jack_rate ok1 ok2 desired_length s = Inr s'"
proof -
  let ?n = "segment_count jack_rate desired_length"
  let ?s1 = "s\<lparr>rate := jack_rate, unit_length := SPEED_OF_SOUND / real_of_int jack_rate,
                tract_length := real_of_int ?n * (SPEED_OF_SOUND / real_of_int jack_rate),
                nsegments := ?n,
                buffer1 := replicate (nat ?n) neutral_segment,
                buffer2 := replicate (nat ?n) neutral_segment,
                front_is_buffer1 := True\<rparr>"
  have "nsegments ?s1 = ?n" by simp
  with update_shape_defined [of ?s1 True] assms(2)
  obtain s' where "update_shape True ?s1 = Some s'" by auto
  then show ?thesis
    using assms(1) by (auto simp add: init_tract_eq segment_count_def Let_def)
qed

lemma copy_waves_fold:
  assumes "fold (copy_waves old1 old2) [0..<k] (b1, b2) = (c1, c2)"
  shows "length c1 = length b1 \<and> length c2 = length b2
       \<and> (\<forall>j. c1 ! j = (if j < k \<and> j < length b1
                          then (b1 ! j)\<lparr>left := left (old1 ! j), right := right (old1 ! j)\<rparr>
                          else b1 ! j))
       \<and> (\<forall>j. c2 ! j = (if j < k \<and> j < length b2
                          then (b2 ! j)\<lparr>left := left (old2 ! j), right := right (old2 ! j)\<rparr>
                          else b2 ! j))"
  using assms
proof (induction k arbitrary: c1 c2)
  case 0
  then show ?case by simp
next
  case (Suc k)
  obtain d1 d2 where prev: "fold (copy_waves old1 old2) [0..<k] (b1, b2) = (d1, d2)"
    by (metis surj_pair)
  note ih = Suc.IH [OF prev]
  from Suc.prems prev have c: "copy_waves old1 old2 k (d1, d2) = (c1, c2)"
    by (simp only: fold_upt_Suc)
  then have c1: "c1 = d1[k := (d1 ! k)\<lparr>left := left (old1 ! k), right := right (old1 ! k)\<rparr>]"
    and c2: "c2 = d2[k := (d2 ! k)\<lparr>left := left (old2 ! k), right := right (old2 ! k)\<rparr>]"
    by (simp_all add: copy_waves_def)
  have n1: "\<And>j. c1 ! j = (if j = k \<and> k < length d1
                 then (d1 ! j)\<lparr>left := left (old1 ! k), right := right (old1 ! k)\<rparr> else d1 ! j)"
    unfolding c1
    by (rule nth_upd_cases [where f = "\<lambda>s. s\<lparr>left := left (old1 ! k), right := right (old1 ! k)\<rparr>"])
  have n2: "\<And>j. c2 ! j = (if j = k \<and> k < length d2
                 then (d2 ! j)\<lparr>left := left (old2 ! k), right := right (old2 ! k)\<rparr> else d2 ! j)"
    unfolding c2
    by (rule nth_upd_cases [where f = "\<lambda>s. s\<lparr>left := left (old2 ! k), right := right (old2 ! k)\<rparr>"])
  have l: "length c1 = length b1 \<and> length c2 = length b2" using ih c1 c2 by simp
  have a1: "\<forall>j. c1 ! j = (if j < Suc k \<and> j < length b1
                          then (b1 ! j)\<lparr>left := left (old1 ! j), right := right (old1 ! j)\<rparr>
                          else b1 ! j)"
    using ih n1 by (auto simp add: less_Suc_eq)
  have a2: "\<forall>j. c2 ! j = (if j < Suc k \<and> j < length b2
                          then (b2 ! j)\<lparr>left := left (old2 ! j), right := right (old2 ! j)\<rparr>
                          else b2 ! j)"
    using ih n2 by (auto simp add: less_Suc_eq)
  show ?case using l a1 a2 by blast
qed

lemma resize_tract_Inr:
  assumes "resize_tract jack_rate ok1 ok2 desired_length s = Inr s'"
  shows "nsegments s' = segment_count jack_rate desired_length"
    and "front_is_buffer1 s'"
    and "length (buffer1 s') = nat (nsegments s')"
    and "length (buffer2 s') = nat (nsegments s')"
    and "\<And>i. i < nat (nsegments s') \<Longrightarrow> i < nat (nsegments s) \<Longrightarrow>
           left (buffer1 s' ! i) = left (buffer1 s ! i)
         \<and> right (buffer1 s' ! i) = right (buffer1 s ! i)
         \<and> left (buffer2 s' ! i) = left (buffer2 s ! i)
         \<and> right (buffer2 s' ! i) = right (buffer2 s ! i)"
    and "\<And>i. i < nat (nsegments s') \<Longrightarrow> \<not> i < nat (nsegments s) \<Longrightarrow>
           left (buffer1 s' ! i) = 0 \<and> right (buffer1 s' ! i) = 0
         \<and> left (buffer2 s' ! i) = 0 \<and> right (buffer2 s' ! i) = 0"
    and "\<And>i. i < nat (nsegments s') \<Longrightarrow>
           rigidity (buffer1 s' ! i) = 1 \<and> rigidity (buffer2 s' ! i) = 1
         \<and> z (buffer2 s' ! i) = NEUTRAL_Z \<and> target_z (buffer2 s' ! i) = NEUTRAL_Z
         \<and> z (buffer1 s' ! i) = shape_target_z (current_phoneme s) (nsegments s') (int i)
         \<and> target_z (buffer1 s' ! i) = shape_target_z (current_phoneme s) (nsegments s') (int i)"
    and "current_phoneme s' = current_phoneme s"
    and "ambient_phoneme s' = ambient_phoneme s"
    and "target_phoneme s' = target_phoneme s"
    and "interpolation_drag s' = interpolation_drag s"
    and "diaphram_pressure s' = diaphram_pressure s"
    and "damping s' = damping s"
proof -
  from assms obtain s1 where
    init: "init_tract jack_rate ok1 ok2 desired_length s = Inr s1"
    by (auto simp add: resize_tract_def Let_def split: sum.splits)
  let ?n = "if nsegments s < nsegments s1 then nsegments s else nsegments s1"
  obtain c1 c2 where
    f: "fold (copy_waves (buffer1 s) (buffer2 s)) [0..<nat ?n] (buffer1 s1, buffer2 s1) = (c1, c2)"
    by (metis surj_pair)
  from assms init f have s': "s' = s1\<lparr>buffer1 := c1, buffer2 := c2\<rparr>"
    by (simp add: resize_tract_def Let_def)
  note i1 = init_tract_Inr [OF init]
  note cw = copy_waves_fold [OF f]
  have n: "nsegments s' = nsegments s1" using s' by simp
  show "nsegments s' = segment_count jack_rate desired_length" using n i1(3) by simp
  show "front_is_buffer1 s'" using s' i1(5) by simp
  show "length (buffer1 s') = nat (nsegments s')" using s' cw i1(6) by simp
  show "length (buffer2 s') = nat (nsegments s')" using s' cw i1(7) by simp
  have seg1: "\<And>i. i < nat (nsegments s1) \<Longrightarrow>
       left (buffer1 s1 ! i) = 0 \<and> right (buffer1 s1 ! i) = 0 \<and> rigidity (buffer1 s1 ! i) = 1
     \<and> z (buffer1 s1 ! i) = shape_target_z (current_phoneme s) (nsegments s1) (int i)
     \<and> target_z (buffer1 s1 ! i) = shape_target_z (current_phoneme s) (nsegments s1) (int i)"
  proof -
    fix i assume "i < nat (nsegments s1)"
    from shape_segment_Some [OF i1(8) [OF this]]
    show "left (buffer1 s1 ! i) = 0 \<and> right (buffer1 s1 ! i) = 0 \<and> rigidity (buffer1 s1 ! i) = 1
     \<and> z (buffer1 s1 ! i) = shape_target_z (current_phoneme s) (nsegments s1) (int i)
     \<and> target_z (buffer1 s1 ! i) = shape_target_z (current_phoneme s) (nsegments s1) (int i)"
      by (simp add: neutral_segment_def LIPS_RIGIDITY_def)
  qed
  show "\<And>i. i < nat (nsegments s') \<Longrightarrow> i < nat (nsegments s) \<Longrightarrow>
           left (buffer1 s' ! i) = left (buffer1 s ! i)
         \<and> right (buffer1 s' ! i) = right (buffer1 s ! i)
         \<and> left (buffer2 s' ! i) = left (buffer2 s ! i)
         \<and> right (buffer2 s' ! i) = right (buffer2 s ! i)"
    using s' cw i1(6,7) by (auto simp add: n)
  show "\<And>i. i < nat (nsegments s') \<Longrightarrow> \<not> i < nat (nsegments s) \<Longrightarrow>
           left (buffer1 s' ! i) = 0 \<and> right (buffer1 s' ! i) = 0
         \<and> left (buffer2 s' ! i) = 0 \<and> right (buffer2 s' ! i) = 0"
    using s' cw i1(6,7) seg1 by (auto simp add: n neutral_segment_def)
  show "\<And>i. i < nat (nsegments s') \<Longrightarrow>
           rigidity (buffer1 s' ! i) = 1 \<and> rigidity (buffer2 s' ! i) = 1
         \<and> z (buffer2 s' ! i) = NEUTRAL_Z \<and> target_z (buffer2 s' ! i) = NEUTRAL_Z
         \<and> z (buffer1 s' ! i) = shape_target_z (current_phoneme s) (nsegments s') (int i)
         \<and> target_z (buffer1 s' ! i) = shape_target_z (current_phoneme s) (nsegments s') (int i)"
    using s' cw i1(6,7) seg1 by (auto simp add: n neutral_segment_def)
  show "current_phoneme s' = current_phoneme s" using s' i1 by simp
  show "ambient_phoneme s' = ambient_phoneme s" using s' i1 by simp
  show "target_phoneme s' = target_phoneme s" using s' i1 by simp
  show "interpolation_drag s' = interpolation_drag s" using s' i1 by simp
  show "diaphram_pressure s' = diaphram_pressure s" using s' i1 by simp
  show "damping s' = damping s" using s' i1 by simp
qed

lemma resize_tract_Inl:
  "init_tract jack_rate ok1 ok2 desired_length s = Inl e
     \<Longrightarrow> resize_tract jack_rate ok1 ok2 desired_length s = Inl e"
  by (simp add: resize_tract_def Let_def)

lemma resize_tract_defined:
  assumes "init_tract jack_rate ok1 ok2 desired_length s = Inr s1"
  shows "\<exists>s'. resize_tract jack_rate ok1 ok2 desired_length s = Inr s'"
  using assms by (simp add: resize_tract_def Let_def split: prod.splits)

subsection \<open>Segment counts of the examples\<close>

lemma segment_count_values:
  "segment_count 44100 TRACT_LENGTH = 22"
  "segment_count 11025 TRACT_LENGTH = 5"
  "segment_count 11025 (map2range 0 CONTROLLER_TRACT_LENGTH_MIN CONTROLLER_TRACT_LENGTH_MAX) = 2"
  "segment_count 44100 (map2range 64 CONTROLLER_TRACT_LENGTH_MIN CONTROLLER_TRACT_LENGTH_MAX) = 20"
  "segment_count 48000 (map2range 127 CONTROLLER_TRACT_LENGTH_MIN CONTROLLER_TRACT_LENGTH_MAX) = 33"
  by (simp_all add: segment_count_def c_int_def TRACT_LENGTH_def SPEED_OF_SOUND_def map2range_def
        CONTROLLER_TRACT_LENGTH_MIN_def CONTROLLER_TRACT_LENGTH_MAX_def)

lemma tongue_bounds_values:
  "tongue_start 2 = 0" "tongue_stop 2 = 1"
  "tongue_start 5 = 1" "tongue_stop 5 = 4"
  "tongue_start 20 = 4" "tongue_stop 20 = 18"
  "tongue_start 22 = 4" "tongue_stop 22 = 19"
  by (simp_all add: tongue_start_def tongue_stop_def c_int_def TONGUE_BACK_def TONGUE_FRONT_def)

lemma process_event_resize:
  "process_event jack_rate ok1 ok2 (Midi 176 24 v) s =
     resize_tract jack_rate ok1 ok2
       (map2range v CONTROLLER_TRACT_LENGTH_MIN CONTROLLER_TRACT_LENGTH_MAX) s"
  by (simp add: process_event_def)

subsection \<open>The articulation filter\<close>

lemma advance_field:
  assumes "f \<in> set phoneme_fields"
  shows "f (advance drag tgt cur) = f cur + (f tgt - f cur) * drag"
  using assms by (auto simp add: phoneme_fields_def advance_def)

lemma advance_error:
  assumes "f \<in> set phoneme_fields"
  shows "f ((advance drag tgt ^^ n) cur) - f tgt = (1 - drag) ^ n * (f cur - f tgt)"
proof (induction n)
  case 0
  then show ?case by simp
next
  case (Suc n)
  have "f ((advance drag tgt ^^ Suc n) cur) - f tgt
          = (1 - drag) * (f ((advance drag tgt ^^ n) cur) - f tgt)"
    by (simp add: advance_field [OF assms] algebra_simps)
  then show ?case using Suc.IH by simp
qed

lemma power_below:
  fixes x e :: real
  assumes "0 \<le> x" "x < 1" "0 < e"
  shows "\<exists>N. \<forall>n\<ge>N. x ^ n * c < e \<or> c < 0"
proof (cases "0 < c")
  case False
  then show ?thesis
    using assms by (metis less_eq_real_def linorder_not_less mult_zero_right)
next
  case True
  then have "0 < e / c" using assms by simp
  from real_arch_pow_inv [OF this assms(2)] obtain N where N: "x ^ N < e / c" ..
  have "\<forall>n\<ge>N. x ^ n * c < e"
  proof (intro allI impI)
    fix n assume "N \<le> n"
    then have "x ^ n \<le> x ^ N" using assms by (simp add: power_decreasing)
    then have "x ^ n < e / c" using N by simp
    then show "x ^ n * c < e" using True by (simp add: pos_less_divide_eq)
  qed
  then show ?thesis by blast
qed

subsection \<open>Target impedances\<close>

lemma update_shape_target:
  assumes "update_shape b s = Some s'" and "i < nat (nsegments s)"
  shows "target_z (segments_front s' ! i) = shape_target_z (current_phoneme s) (nsegments s) (int i)"
proof -
  from update_shape_Some [OF assms(1)] obtain ys where
    s': "s' = set_front s ys"
    and seg: "\<forall>i<nat (nsegments s).
                shape_segment (current_phoneme s) (nsegments s) b (int i) (segments_front s ! i)
                  = Some (ys ! i)"
    by blast
  from seg assms(2) have
    "shape_segment (current_phoneme s) (nsegments s) b (int i) (segments_front s ! i)
       = Some (ys ! i)" by simp
  from shape_segment_Some(3) [OF this] s' show ?thesis by simp
qed

subsection \<open>Rigidity is invariant\<close>

lemma rigid_chain_front_back:
  "rigid_chain s \<longleftrightarrow>
     length (segments_front s) = nat (nsegments s) \<and> length (segments_back s) = nat (nsegments s)
     \<and> (\<forall>i<nat (nsegments s). rigidity (segments_front s ! i) = 1)
     \<and> (\<forall>i<nat (nsegments s). rigidity (segments_back s ! i) = 1)"
  by (auto simp add: rigid_chain_def segments_front_def segments_back_def list_all_length)

lemma rigid_chain_buffers:
  "rigid_chain s \<longleftrightarrow>
     length (buffer1 s) = nat (nsegments s) \<and> length (buffer2 s) = nat (nsegments s)
     \<and> (\<forall>i<nat (nsegments s). rigidity (buffer1 s ! i) = 1)
     \<and> (\<forall>i<nat (nsegments s). rigidity (buffer2 s ! i) = 1)"
  by (auto simp add: rigid_chain_def list_all_length)

lemma init_tract_rigid:
  assumes "init_tract jack_rate ok1 ok2 desired_length s = Inr s'"
  shows "rigid_chain s'"
proof -
  note i = init_tract_Inr [OF assms]
  have "\<forall>i<nat (nsegments s'). rigidity (buffer1 s' ! i) = 1"
  proof (intro allI impI)
    fix j assume "j < nat (nsegments s')"
    from shape_segment_Some(5) [OF i(8) [OF this]]
    show "rigidity (buffer1 s' ! j) = 1"
      by (simp add: neutral_segment_def LIPS_RIGIDITY_def split: if_splits)
  qed
  moreover have "\<forall>i<nat (nsegments s'). rigidity (buffer2 s' ! i) = 1"
    using i(7) by (simp add: neutral_segment_def)
  ultimately show ?thesis
    using i(6,7) by (simp add: rigid_chain_buffers)
qed

lemma resize_tract_rigid:
  assumes "resize_tract jack_rate ok1 ok2 desired_length s = Inr s'"
  shows "rigid_chain s'"
  using resize_tract_Inr(3,4,7) [OF assms] by (simp add: rigid_chain_buffers)

lemma process_event_cases:
  assumes "process_event jack_rate ok1 ok2 ev s = Inr s'"
  shows "(\<exists>len. resize_tract jack_rate ok1 ok2 len s = Inr s')
       \<or> (nsegments s' = nsegments s \<and> buffer1 s' = buffer1 s \<and> buffer2 s' = buffer2 s
          \<and> front_is_buffer1 s' = front_is_buffer1 s
          \<and> current_phoneme s' = current_phoneme s
          \<and> target_phoneme s' = target_phoneme s)"
  using assms
  by (cases ev) (auto simp add: process_event_def Let_def split: if_splits)

lemma run_tract_rigid:
  assumes "run_tract rm rnd s g = Some (d, s')" and "rigid_chain s"
  shows "rigid_chain s'"
proof -
  obtain bk dr c where sp: "scatter_pass rm rnd s g = (bk, dr, c)"
    by (metis prod_cases3)
  let ?s2 = "articulate (swap_buffers ((set_back s bk)\<lparr>rand_calls := c\<rparr>))"
  from run_tract_Some [OF assms(1)] sp
  have us: "update_shape False ?s2 = Some s'" by auto
  have n2: "nsegments ?s2 = nsegments s" by (simp add: swap_buffers_def set_back_def)
  have f2: "segments_front ?s2 = bk" by simp
  from update_shape_Some [OF us] obtain ys where
    s': "s' = set_front ?s2 ys"
    and seg: "\<forall>i<nat (nsegments s).
                shape_segment (current_phoneme ?s2) (nsegments s) False (int i) (bk ! i)
                  = Some (ys ! i)"
    unfolding n2 f2 by blast
  note r = run_tract_front [OF assms(1) sp]
  note inv = assms(2) [unfolded rigid_chain_front_back]
  have front: "\<forall>i<nat (nsegments s). rigidity (segments_front s' ! i) = 1"
  proof (intro allI impI)
    fix j assume j: "j < nat (nsegments s)"
    with seg have "shape_segment (current_phoneme ?s2) (nsegments s) False (int j) (bk ! j)
                  = Some (ys ! j)" by simp
    from shape_segment_Some(5) [OF this]
    have "rigidity (ys ! j) = 1"
      using scatter_pass_frame(4) [OF sp j] inv j
      by (simp add: LIPS_RIGIDITY_def split: if_splits)
    then show "rigidity (segments_front s' ! j) = 1" using s' by simp
  qed
  show ?thesis
    unfolding rigid_chain_front_back using r(2,3,4) inv front by simp
qed

lemma reachable_rigid:
  assumes "reachable valid jack_rate s"
  shows "rigid_chain s"
  using assms
proof (induction rule: reachable.induct)
  case (reach_init ok1 ok2 s)
  then show ?case by (simp add: init_tract_rigid)
next
  case (reach_event s ev ok1 ok2 s')
  from process_event_cases [OF reach_event.hyps(3)] show ?case
  proof
    assume "\<exists>len. resize_tract jack_rate ok1 ok2 len s = Inr s'"
    then show ?thesis using resize_tract_rigid by blast
  next
    assume "nsegments s' = nsegments s \<and> buffer1 s' = buffer1 s \<and> buffer2 s' = buffer2 s
          \<and> front_is_buffer1 s' = front_is_buffer1 s
          \<and> current_phoneme s' = current_phoneme s
          \<and> target_phoneme s' = target_phoneme s"
    then show ?thesis using reach_event.IH by (simp add: rigid_chain_def)
  qed
next
  case (reach_sample s rand_max rnd glottal_source dr s')
  then show ?case using run_tract_rigid by blast
qed

subsection \<open>Chains of uniform impedance\<close>

lemma reflection_same [simp]: "reflection a a = 0"
  by (simp add: reflection_def)

lemma reflection_abs_le_1:
  assumes "0 < a" and "0 < b"
  shows "\<bar>reflection a b\<bar> \<le> 1"
proof -
  have "\<bar>b - a\<bar> \<le> b + a" using assms by simp
  moreover have "0 < b + a" using assms by simp
  ultimately show ?thesis
    unfolding reflection_def by (simp add: abs_divide)
qed

lemma scatter_segment_waves_uniform:
  assumes "i < length bk" and "length front = length bk" and "n = int (length bk)"
    and "\<forall>j<length bk. z (front ! j) = z0"
  shows "left (fst (scatter_segment rm rnd d p g n front i (bk, dr, c)) ! j) =
          (if j = i then left (bk ! j) + uniform_left z0 d front i else left (bk ! j))"
    and "right (fst (scatter_segment rm rnd d p g n front i (bk, dr, c)) ! j) =
          (if j = i then right (bk ! j) + uniform_right z0 d p g front i else right (bk ! j))"
proof -
  have zi: "z (front ! i) = z0" using assms by simp
  have zl: "i \<noteq> 0 \<Longrightarrow> z (front ! (i - 1)) = z0" using assms by simp
  have zr: "int i \<noteq> n - 1 \<Longrightarrow> z (front ! (i + 1)) = z0" using assms by simp
  have last: "int i = n - 1 \<longleftrightarrow> Suc i = length front" using assms by auto
  show "left (fst (scatter_segment rm rnd d p g n front i (bk, dr, c)) ! j) =
          (if j = i then left (bk ! j) + uniform_left z0 d front i else left (bk ! j))"
    using assms(1) zi zl zr last
    by (auto simp add: scatter_segment_def scatter_rightward_def scatter_leftward_def Let_def
          uniform_left_def split: prod.splits)
  show "right (fst (scatter_segment rm rnd d p g n front i (bk, dr, c)) ! j) =
          (if j = i then right (bk ! j) + uniform_right z0 d p g front i else right (bk ! j))"
    using assms(1) zi zl zr last
    by (auto simp add: scatter_segment_def scatter_rightward_def scatter_leftward_def Let_def
          uniform_right_def split: prod.splits)
qed

lemma scatter_fold_waves_uniform:
  assumes "k \<le> length bk0" and "length front = length bk0" and "n = int (length bk0)"
    and "\<forall>j<length bk0. z (front ! j) = z0"
    and "fold (scatter_segment rm rnd d p g n front) [0..<k] (bk0, dr0, c0) = (bk, dr, c)"
  shows "\<forall>j. left (bk ! j) =
               (if j < k then left (bk0 ! j) + uniform_left z0 d front j else left (bk0 ! j))
           \<and> right (bk ! j) =
               (if j < k then right (bk0 ! j) + uniform_right z0 d p g front j else right (bk0 ! j))"
  using assms(1,5)
proof (induction k arbitrary: bk dr c)
  case 0
  then show ?case by simp
next
  case (Suc k)
  obtain bk' dr' c' where prev:
    "fold (scatter_segment rm rnd d p g n front) [0..<k] (bk0, dr0, c0) = (bk', dr', c')"
    by (metis prod_cases3)
  have kl: "k < length bk0" using Suc.prems(1) by simp
  have ih: "\<forall>j. left (bk' ! j) =
               (if j < k then left (bk0 ! j) + uniform_left z0 d front j else left (bk0 ! j))
           \<and> right (bk' ! j) =
               (if j < k then right (bk0 ! j) + uniform_right z0 d p g front j else right (bk0 ! j))"
    using Suc.IH [OF _ prev] kl by simp
  have len': "length bk' = length bk0"
    using scatter_fold_frame [OF _ prev] kl by simp
  have bk: "bk = fst (scatter_segment rm rnd d p g n front k (bk', dr', c'))"
    using Suc.prems(2) prev by (simp only: fold_upt_Suc) simp
  have a: "k < length bk'" "length front = length bk'" "n = int (length bk')"
    "\<forall>j<length bk'. z (front ! j) = z0"
    using kl len' assms(2,3,4) by simp_all
  show ?case
    unfolding bk
    using ih by (auto simp add: scatter_segment_waves_uniform [OF a] less_Suc_eq)
qed

lemma scatter_pass_waves_uniform:
  assumes "scatter_pass rm rnd s g = (bk, dr, c)"
    and "length (segments_front s) = nat (nsegments s)"
    and "\<forall>j<nat (nsegments s). z (segments_front s ! j) = z0"
    and "j < nat (nsegments s)"
  shows "left (bk ! j) = uniform_left z0 (damping s) (segments_front s) j"
    and "right (bk ! j) =
           uniform_right z0 (damping s) (diaphram_pressure s) g (segments_front s) j"
proof -
  let ?N = "nat (nsegments s)"
  let ?bk0 = "map (\<lambda>i. carry_over (segments_front s ! i)) [0..<?N]"
  have f: "fold (scatter_segment rm rnd (damping s) (diaphram_pressure s) g (nsegments s)
                   (segments_front s)) [0..<?N] (?bk0, 0, rand_calls s) = (bk, dr, c)"
    using assms(1) by (simp add: scatter_pass_def Let_def)
  have len0: "length ?bk0 = ?N" by simp
  have n: "nsegments s = int (length ?bk0)" using assms(4) by simp
  have u: "\<forall>j<length ?bk0. z (segments_front s ! j) = z0" using assms(3) by simp
  have l: "length (segments_front s) = length ?bk0" using assms(2) by simp
  have k: "?N \<le> length ?bk0" by simp
  note w = scatter_fold_waves_uniform [OF k l n u f]
  have z0: "left (?bk0 ! j) = 0" "right (?bk0 ! j) = 0"
    using assms(4) by (simp_all add: carry_over_def Let_def)
  show "left (bk ! j) = uniform_left z0 (damping s) (segments_front s) j"
    using w z0 assms(4) by simp
  show "right (bk ! j) =
           uniform_right z0 (damping s) (diaphram_pressure s) g (segments_front s) j"
    using w z0 assms(4) by simp
qed

lemma wave_energy_sum:
  "wave_energy xs = (\<Sum>i = 0..<length xs. left (xs ! i) ^ 2) + (\<Sum>i = 0..<length xs. right (xs ! i) ^ 2)"
  by (simp add: wave_energy_def sum_list_sum_nth sum.distrib)

lemma uniform_energy_bound:
  fixes L R :: "nat \<Rightarrow> real"
  assumes "a\<^sup>2 \<le> 1" and "b\<^sup>2 \<le> 1"
  shows "(\<Sum>i = 0..<Suc m. (if Suc i = Suc m then R i * b else L (Suc i)) ^ 2)
       + (\<Sum>i = 0..<Suc m. (if i = 0 then L 0 * a else R (i - 1)) ^ 2)
       \<le> (\<Sum>i = 0..<Suc m. L i ^ 2) + (\<Sum>i = 0..<Suc m. R i ^ 2)"
proof -
  have l': "(\<Sum>i = 0..<Suc m. (if Suc i = Suc m then R i * b else L (Suc i)) ^ 2)
          = (\<Sum>i = 0..<m. L (Suc i) ^ 2) + (R m * b) ^ 2"
    by simp
  have r': "(\<Sum>i = 0..<Suc m. (if i = 0 then L 0 * a else R (i - 1)) ^ 2)
          = (L 0 * a) ^ 2 + (\<Sum>i = 0..<m. R i ^ 2)"
    by (simp add: sum.atLeast0_lessThan_Suc_shift del: sum.lessThan_Suc sum.op_ivl_Suc)
  have l: "(\<Sum>i = 0..<Suc m. L i ^ 2) = L 0 ^ 2 + (\<Sum>i = 0..<m. L (Suc i) ^ 2)"
    by (simp add: sum.atLeast0_lessThan_Suc_shift del: sum.lessThan_Suc sum.op_ivl_Suc)
  have r: "(\<Sum>i = 0..<Suc m. R i ^ 2) = (\<Sum>i = 0..<m. R i ^ 2) + R m ^ 2"
    by simp
  have e1: "(L 0 * a) ^ 2 \<le> L 0 ^ 2"
    using assms(1) mult_left_mono [of "a\<^sup>2" 1 "(L 0)\<^sup>2"] by (simp add: power_mult_distrib)
  have e2: "(R m * b) ^ 2 \<le> R m ^ 2"
    using assms(2) mult_left_mono [of "b\<^sup>2" 1 "(R m)\<^sup>2"] by (simp add: power_mult_distrib)
  show ?thesis unfolding l' r' l r using e1 e2 by linarith
qed

lemma tongue_bounds_3: "tongue_start 3 = 0" "tongue_stop 3 = 2"
  by (simp_all add: tongue_start_def tongue_stop_def c_int_def TONGUE_BACK_def TONGUE_FRONT_def)

lemma run_tract_wave_energy:
  assumes "run_tract rm rnd s g = Some (d, s')"
  shows "wave_energy (segments_front s') = wave_energy (fst (scatter_pass rm rnd s g))"
proof -
  obtain bk dr c where sp: "scatter_pass rm rnd s g = (bk, dr, c)"
    by (metis prod_cases3)
  note r = run_tract_front [OF assms sp]
  have len: "length bk = nat (nsegments s)" using scatter_pass_frame(1) [OF sp] .
  have "wave_energy (segments_front s') = wave_energy bk"
    unfolding wave_energy_sum using r(3) r(6) len by simp
  then show ?thesis using sp by simp
qed

lemma energy_state_pass:
  "map (\<lambda>seg. (left seg, right seg)) (fst (scatter_pass 32767 rand_zero energy_state 0))
     = [(- (16 / 25), 0), (0, 5 / 3), (0, 0)]"
  by (simp add: scatter_pass_def energy_state_def demo_chain_def main_globals_def
        segments_front_def neutral_segment_def Let_def carry_over_def PHYSICAL_DAMPING_def
        numeral_3_eq_3 scatter_segment_def scatter_rightward_def scatter_leftward_def
        add_left_def add_right_def put_z_def reflection_def DRAIN_Z_def NEUTRAL_Z_def
        DEFAULT_DAMPING_def FRICATION_def noise_def rand_zero_def MIN_AREA_def)

lemma wave_energy_pairs:
  "wave_energy xs = sum_list (map (\<lambda>(l, r). l ^ 2 + r ^ 2) (map (\<lambda>seg. (left seg, right seg)) xs))"
  by (simp add: wave_energy_def comp_def)

subsection \<open>Positive impedances are invariant\<close>

lemma shape_target_z_pos:
  assumes "in_range cur"
  shows "0 < shape_target_z cur n i"
proof -
  let ?h = "tongue_height cur"
  have h: "0 \<le> ?h" "?h \<le> 1" and l: "lips_roundedness cur \<le> 1"
    using assms by (simp_all add: in_range_def)
  have lips: "0 < 1 - lips_roundedness cur + MIN_AREA" using l by (simp add: MIN_AREA_def)
  have tongue: "0 < 1 - cos x * ?h + MIN_AREA" for x
  proof -
    have "cos x * ?h \<le> 1 * ?h" using h by (intro mult_right_mono) simp_all
    then have "cos x * ?h \<le> 1" using h by simp
    then show ?thesis by (simp add: MIN_AREA_def)
  qed
  show ?thesis
    unfolding shape_target_z_def using lips tongue
    by (simp add: THROAT_Z_def NEUTRAL_Z_def)
qed

lemma advance_in_range:
  assumes "0 \<le> drag" and "drag \<le> 1" and "in_range tgt" and "in_range cur"
  shows "in_range (advance drag tgt cur)"
proof -
  have conv: "0 \<le> c + (t - c) * drag \<and> c + (t - c) * drag \<le> 1"
    if "0 \<le> c" "c \<le> 1" "0 \<le> t" "t \<le> 1" for c t :: real
  proof -
    have e: "c + (t - c) * drag = (1 - drag) * c + drag * t" by (simp add: algebra_simps)
    have "0 \<le> (1 - drag) * c" "0 \<le> drag * t" using assms(1,2) that by simp_all
    moreover have "(1 - drag) * c \<le> 1 - drag"
      using mult_left_mono [of c 1 "1 - drag"] assms(2) that by simp
    moreover have "drag * t \<le> drag"
      using mult_left_mono [of t 1 drag] assms(1) that by simp
    ultimately have "0 \<le> (1 - drag) * c + drag * t" and "(1 - drag) * c + drag * t \<le> 1"
      by linarith+
    then show ?thesis by (simp only: e)
  qed
  show ?thesis
    using assms(3,4) conv [of "tongue_height cur" "tongue_height tgt"]
      conv [of "lips_roundedness cur" "lips_roundedness tgt"]
    by (simp add: in_range_def advance_def)
qed

lemma map2range_unit:
  assumes "v \<le> 127"
  shows "0 \<le> map2range v 0 1" and "map2range v 0 1 \<le> 1"
  using assms by (simp_all add: map2range_def)

lemma map2range_drag:
  assumes "v \<le> 127"
  shows "0 \<le> map2range v DRAG_MIN DRAG_MAX" and "map2range v DRAG_MIN DRAG_MAX \<le> 1"
proof -
  have v: "0 \<le> real v / 127" "real v / 127 \<le> 1" using assms by simp_all
  have e: "map2range v DRAG_MIN DRAG_MAX = 1 / 1000 - (9 / 10000) * (real v / 127)"
    by (simp add: map2range_def DRAG_MIN_def DRAG_MAX_def)
  have "(9 / 10000) * (real v / 127) \<le> (9 / 10000) * 1"
    using v by (intro mult_left_mono) simp_all
  moreover have "0 \<le> (9 / 10000) * (real v / 127)" using v by simp
  ultimately show "0 \<le> map2range v DRAG_MIN DRAG_MAX"
    and "map2range v DRAG_MIN DRAG_MAX \<le> 1"
    unfolding e by linarith+
qed

lemma deref_in_range:
  assumes "in_range (ambient_phoneme s)"
  shows "in_range (deref s p)"
  using assms
  by (cases p)
     (simp_all add: deref_def in_range_def PHONEME_A_def PHONEME_I_def PHONEME_U_def
        PHONEME_E_def PHONEME_O_def PHONEME_SCHWA_def PHONEME_UH_def PHONEME_AH_def
        PHONEME_UE_def PHONEME_II_def PHONEME_OE_def)

lemma positive_chain_front_back:
  "positive_chain s \<longleftrightarrow>
     rigid_chain s
     \<and> in_range (ambient_phoneme s) \<and> in_range (current_phoneme s)
     \<and> 0 \<le> interpolation_drag s \<and> interpolation_drag s \<le> 1
     \<and> (\<forall>i<nat (nsegments s). 0 < z (segments_front s ! i) \<and> 0 < target_z (segments_front s ! i))
     \<and> (\<forall>i<nat (nsegments s). 0 < z (segments_back s ! i) \<and> 0 < target_z (segments_back s ! i))"
  by (auto simp add: positive_chain_def rigid_chain_def segments_front_def segments_back_def
        list_all_length)

lemma positive_chain_buffers:
  "positive_chain s \<longleftrightarrow>
     rigid_chain s
     \<and> in_range (ambient_phoneme s) \<and> in_range (current_phoneme s)
     \<and> 0 \<le> interpolation_drag s \<and> interpolation_drag s \<le> 1
     \<and> (\<forall>i<nat (nsegments s). 0 < z (buffer1 s ! i) \<and> 0 < target_z (buffer1 s ! i))
     \<and> (\<forall>i<nat (nsegments s). 0 < z (buffer2 s ! i) \<and> 0 < target_z (buffer2 s ! i))"
  by (auto simp add: positive_chain_def rigid_chain_def list_all_length)

lemma resize_tract_positive:
  assumes "resize_tract jack_rate ok1 ok2 desired_length s = Inr s'"
    and "in_range (ambient_phoneme s)" and "in_range (current_phoneme s)"
    and "0 \<le> interpolation_drag s" and "interpolation_drag s \<le> 1"
  shows "positive_chain s'"
proof -
  note r = resize_tract_Inr [OF assms(1)]
  have "\<forall>i<nat (nsegments s').
          0 < z (buffer1 s' ! i) \<and> 0 < target_z (buffer1 s' ! i)
        \<and> 0 < z (buffer2 s' ! i) \<and> 0 < target_z (buffer2 s' ! i)"
    using r(7) shape_target_z_pos [OF assms(3)] by (simp add: NEUTRAL_Z_def)
  then show ?thesis
    unfolding positive_chain_buffers
    using resize_tract_rigid [OF assms(1)] r(8,9,11) assms(2-5) by simp
qed

lemma init_tract_positive:
  assumes "init_tract jack_rate ok1 ok2 desired_length s = Inr s'"
    and "in_range (ambient_phoneme s)" and "in_range (current_phoneme s)"
    and "0 \<le> interpolation_drag s" and "interpolation_drag s \<le> 1"
  shows "positive_chain s'"
proof -
  note i = init_tract_Inr [OF assms(1)]
  have b1: "\<forall>j<nat (nsegments s'). 0 < z (buffer1 s' ! j) \<and> 0 < target_z (buffer1 s' ! j)"
  proof (intro allI impI)
    fix j assume "j < nat (nsegments s')"
    from shape_segment_Some(3,4) [OF i(8) [OF this]] shape_target_z_pos [OF assms(3)]
    show "0 < z (buffer1 s' ! j) \<and> 0 < target_z (buffer1 s' ! j)" by simp
  qed
  have b2: "\<forall>j<nat (nsegments s'). 0 < z (buffer2 s' ! j) \<and> 0 < target_z (buffer2 s' ! j)"
    using i(7) by (simp add: neutral_segment_def NEUTRAL_Z_def)
  show ?thesis
    unfolding positive_chain_buffers
    using init_tract_rigid [OF assms(1)] i(9,10,12) assms(2-5) b1 b2 by simp
qed

lemma carry_over_positive:
  assumes "0 < target_z old"
  shows "z (carry_over old) = target_z old"
proof -
  have "1 / z old + (1 / target_z old - 1 / z old) * PHYSICAL_DAMPING = 1 / target_z old"
    by (simp add: PHYSICAL_DAMPING_def)
  moreover have "\<not> 1 / target_z old < 0" using assms by simp
  ultimately show ?thesis by (simp add: carry_over_def Let_def)
qed

lemma run_tract_positive:
  assumes "run_tract rm rnd s g = Some (d, s')" and "positive_chain s"
  shows "positive_chain s'"
    and "\<And>j. j < nat (nsegments s) \<Longrightarrow> z (segments_front s' ! j) = target_z (segments_front s ! j)"
proof -
  obtain bk dr c where sp: "scatter_pass rm rnd s g = (bk, dr, c)"
    by (metis prod_cases3)
  let ?s2 = "articulate (swap_buffers ((set_back s bk)\<lparr>rand_calls := c\<rparr>))"
  from run_tract_Some [OF assms(1)] sp
  have us: "update_shape False ?s2 = Some s'" by auto
  note inv = assms(2) [unfolded positive_chain_front_back]
  have rc: "rigid_chain s" using inv by simp
  note rf = rc [unfolded rigid_chain_front_back]
  note r = run_tract_front [OF assms(1) sp]
  have n2: "nsegments ?s2 = nsegments s" by (simp add: swap_buffers_def set_back_def)
  let ?s1 = "swap_buffers ((set_back s bk)\<lparr>rand_calls := c\<rparr>)"
  have a1: "ambient_phoneme ?s1 = ambient_phoneme s" "current_phoneme ?s1 = current_phoneme s"
    "interpolation_drag ?s1 = interpolation_drag s"
    by (simp_all add: swap_buffers_def set_back_def)
  have "in_range (advance (interpolation_drag ?s1) (deref ?s1 (target_phoneme ?s1))
                    (current_phoneme ?s1))"
    using inv by (intro advance_in_range deref_in_range) (simp_all only: a1)
  then have ir2: "in_range (current_phoneme ?s2)"
    by (simp add: articulate_def)
  from update_shape_Some [OF us] obtain ys where s': "s' = set_front ?s2 ys" by blast
  have cur': "current_phoneme s' = current_phoneme ?s2"
    and amb': "ambient_phoneme s' = ambient_phoneme s"
    and drag': "interpolation_drag s' = interpolation_drag s"
    using s' by (simp_all add: swap_buffers_def set_back_def)
  have zf: "\<And>j. j < nat (nsegments s) \<Longrightarrow>
              z (segments_front s' ! j) = target_z (segments_front s ! j)"
  proof -
    fix j assume j: "j < nat (nsegments s)"
    have tz: "0 < target_z (segments_front s ! j)" using inv j by simp
    have w: "wall_right (segments_front s) j = 0"
            "wall_left (nsegments s) (segments_front s) j = 0"
      using rf j by (simp_all add: wall_right_def wall_left_def)
    have "z (segments_front s' ! j) = z (bk ! j)" using r(6) [OF j] by simp
    also have "\<dots> = 1 / clamp_area (1 / target_z (segments_front s ! j))"
      using scatter_pass_frame(2) [OF sp j] w by (simp add: carry_over_positive [OF tz])
    also have "\<dots> = target_z (segments_front s ! j)"
      using tz by (simp add: clamp_area_def)
    finally show "z (segments_front s' ! j) = target_z (segments_front s ! j)" .
  qed
  have front: "\<forall>j<nat (nsegments s).
                 0 < z (segments_front s' ! j) \<and> 0 < target_z (segments_front s' ! j)"
  proof (intro allI impI)
    fix j assume j: "j < nat (nsegments s)"
    have "j < nat (nsegments ?s2)" using j n2 by simp
    from update_shape_target [OF us this]
    have "0 < target_z (segments_front s' ! j)"
      using shape_target_z_pos [OF ir2] by simp
    moreover have "0 < z (segments_front s' ! j)" using zf [OF j] inv j by simp
    ultimately show "0 < z (segments_front s' ! j) \<and> 0 < target_z (segments_front s' ! j)"
      by simp
  qed
  show "positive_chain s'"
    unfolding positive_chain_front_back
    using run_tract_rigid [OF assms(1) rc] inv front r(2,4) ir2 cur' amb' drag' by simp
  show "\<And>j. j < nat (nsegments s) \<Longrightarrow>
          z (segments_front s' ! j) = target_z (segments_front s ! j)"
    by (rule zf)
qed

lemma process_event_unfold:
  "process_event jack_rate ok1 ok2 (Midi b0 b1 b2) s =
     (if 16 * (b0 div 16) = 176 then
        (if b1 = 24 then
           resize_tract jack_rate ok1 ok2
             (map2range b2 CONTROLLER_TRACT_LENGTH_MIN CONTROLLER_TRACT_LENGTH_MAX) s
         else if b1 = 22 then
           Inr (s\<lparr>ambient_phoneme := (ambient_phoneme s)\<lparr>tongue_height := map2range b2 0 1\<rparr>\<rparr>)
         else if b1 = 21 then
           Inr (s\<lparr>ambient_phoneme := (ambient_phoneme s)\<lparr>tongue_position := map2range b2 0 1\<rparr>\<rparr>)
         else if b1 = 23 then
           Inr (s\<lparr>ambient_phoneme := (ambient_phoneme s)\<lparr>lips_roundedness := map2range b2 0 1\<rparr>\<rparr>)
         else if b1 = 25 then
           Inr (s\<lparr>interpolation_drag := map2range b2 DRAG_MIN DRAG_MAX\<rparr>)
         else if b1 = 26 then
           Inr (s\<lparr>diaphram_pressure :=
                    map2range b2 MIN_DIAPHRAM_PRESSURE MAX_DIAPHRAM_PRESSURE\<rparr>)
         else if b1 = 27 then
           Inr (s\<lparr>damping := map2range b2 MIN_DAMPING MAX_DAMPING\<rparr>)
         else Inr s)
      else if 16 * (b0 div 16) = 128 \<and> b0 mod 16 = 9 then Inr s
      else if 16 * (b0 div 16) = 144 \<and> b0 mod 16 = 9 then
        Inr (s\<lparr>ambient_phoneme := deref s (get_mapped_phoneme b1)\<rparr>)
      else Inr s)"
  unfolding process_event_def by (simp only: midi_event.case Let_def)

lemma process_event_positive:
  assumes "process_event jack_rate ok1 ok2 (Midi b0 b1 b2) s = Inr s'"
    and "b2 \<le> 127" and "positive_chain s"
  shows "positive_chain s'"
proof -
  define ty where "ty = 16 * (b0 div 16)"
  define ch where "ch = b0 mod 16"
  note pe = process_event_unfold [of jack_rate ok1 ok2 b0 b1 b2 s, folded ty_def ch_def]
  note inv = assms(3) [unfolded positive_chain_def rigid_chain_def in_range_def]
  note u = map2range_unit [OF assms(2)]
  note dr = map2range_drag [OF assms(2)]
  have keep: "positive_chain s'"
    if "rigid_chain s' = rigid_chain s" "buffer1 s' = buffer1 s" "buffer2 s' = buffer2 s"
      "in_range (ambient_phoneme s')" "current_phoneme s' = current_phoneme s"
      "0 \<le> interpolation_drag s'" "interpolation_drag s' \<le> 1"
    using that assms(3) by (simp add: positive_chain_def)
  consider (len) "ty = 176" "b1 = 24"
    | (height) "ty = 176" "b1 = 22"
    | (pos) "ty = 176" "b1 = 21"
    | (lips) "ty = 176" "b1 = 23"
    | (drag) "ty = 176" "b1 = 25"
    | (press) "ty = 176" "b1 = 26"
    | (damp) "ty = 176" "b1 = 27"
    | (ctl) "ty = 176" "b1 \<noteq> 24" "b1 \<noteq> 22" "b1 \<noteq> 21" "b1 \<noteq> 23" "b1 \<noteq> 25"
        "b1 \<noteq> 26" "b1 \<noteq> 27"
    | (off) "ty \<noteq> 176" "ty = 128 \<and> ch = 9"
    | (on) "ty \<noteq> 176" "\<not> (ty = 128 \<and> ch = 9)" "ty = 144 \<and> ch = 9"
    | (rest) "ty \<noteq> 176" "\<not> (ty = 128 \<and> ch = 9)" "\<not> (ty = 144 \<and> ch = 9)"
    by blast
  then show ?thesis
  proof cases
    case len
    then have "resize_tract jack_rate ok1 ok2
       (map2range b2 CONTROLLER_TRACT_LENGTH_MIN CONTROLLER_TRACT_LENGTH_MAX) s = Inr s'"
      using assms(1) unfolding pe by simp
    then show ?thesis
      by (rule resize_tract_positive) (use assms(3) in \<open>simp_all add: positive_chain_def\<close>)
  next
    case height
    then have "s' = s\<lparr>ambient_phoneme := (ambient_phoneme s)\<lparr>tongue_height := map2range b2 0 1\<rparr>\<rparr>"
      using assms(1) unfolding pe by simp
    then show ?thesis using inv u by (intro keep) (simp_all add: rigid_chain_def in_range_def)
  next
    case pos
    then have "s' = s\<lparr>ambient_phoneme := (ambient_phoneme s)\<lparr>tongue_position := map2range b2 0 1\<rparr>\<rparr>"
      using assms(1) unfolding pe by simp
    then show ?thesis using inv by (intro keep) (simp_all add: rigid_chain_def in_range_def)
  next
    case lips
    then have "s' = s\<lparr>ambient_phoneme := (ambient_phoneme s)\<lparr>lips_roundedness := map2range b2 0 1\<rparr>\<rparr>"
      using assms(1) unfolding pe by simp
    then show ?thesis using inv u by (intro keep) (simp_all add: rigid_chain_def in_range_def)
  next
    case drag
    then have "s' = s\<lparr>interpolation_drag := map2range b2 DRAG_MIN DRAG_MAX\<rparr>"
      using assms(1) unfolding pe by simp
    then show ?thesis using inv dr by (intro keep) (simp_all add: rigid_chain_def in_range_def)
  next
    case press
    then have "s' = s\<lparr>diaphram_pressure := map2range b2 MIN_DIAPHRAM_PRESSURE MAX_DIAPHRAM_PRESSURE\<rparr>"
      using assms(1) unfolding pe by simp
    then show ?thesis using inv by (intro keep) (simp_all add: rigid_chain_def in_range_def)
  next
    case damp
    then have "s' = s\<lparr>damping := map2range b2 MIN_DAMPING MAX_DAMPING\<rparr>"
      using assms(1) unfolding pe by simp
    then show ?thesis using inv by (intro keep) (simp_all add: rigid_chain_def in_range_def)
  next
    case ctl
    then have "s' = s" using assms(1) unfolding pe by simp
    then show ?thesis using assms(3) by simp
  next
    case off
    then have "s' = s" using assms(1) unfolding pe by simp
    then show ?thesis using assms(3) by simp
  next
    case on
    then have "s' = s\<lparr>ambient_phoneme := deref s (get_mapped_phoneme b1)\<rparr>"
      using assms(1) unfolding pe by simp
    moreover have "in_range (deref s (get_mapped_phoneme b1))"
      using assms(3) by (intro deref_in_range) (simp add: positive_chain_def)
    ultimately show ?thesis using inv by (intro keep) (simp_all add: rigid_chain_def)
  next
    case rest
    then have "s' = s" using assms(1) unfolding pe by (simp split: if_splits)
    then show ?thesis using assms(3) by simp
  qed
qed

lemma reachable_positive:
  assumes "reachable midi_data jack_rate s"
  shows "positive_chain s"
  using assms
proof (induction rule: reachable.induct)
  case (reach_init ok1 ok2 s)
  show ?case
    by (rule init_tract_positive [OF reach_init(2)])
       (simp_all add: main_globals_def in_range_def DEFAULT_INTERPOLATION_DRAG_def)
next
  case (reach_event s ev ok1 ok2 s')
  obtain b0 b1 b2 where ev: "ev = Midi b0 b1 b2" by (cases ev)
  have "b2 \<le> 127" using reach_event.hyps(2) by (simp add: ev midi_data_def)
  then show ?case
    using reach_event.hyps(3) reach_event.IH process_event_positive unfolding ev by blast
next
  case (reach_sample s rand_max rnd glottal_source dr s')
  then show ?case using run_tract_positive(1) by blast
qed

lemma reachable_impedance_positive:
  assumes "reachable midi_data jack_rate s"
  shows "list_all (\<lambda>seg. 0 < z seg) (buffer1 s) \<and> list_all (\<lambda>seg. 0 < z seg) (buffer2 s)"
  using reachable_positive [OF assms]
  by (simp add: positive_chain_def list_all_length)

lemma clamp_area_not_a_floor:
  "clamp_area 0 = 0" and "clamp_area (MIN_AREA / 2) = MIN_AREA / 2"
  and "a < 0 \<Longrightarrow> clamp_area a = MIN_AREA"
  by (simp_all add: clamp_area_def MIN_AREA_def)

subsection \<open>The roles of the buffers across a resize\<close>

lemma resize_tract_front:
  assumes "resize_tract jack_rate ok1 ok2 desired_length s = Inr s'"
    and "i < nat (nsegments s')" and "i < nat (nsegments s)"
  shows "left (segments_front s' ! i) =
           (if front_is_buffer1 s then left (segments_front s ! i)
            else left (segments_back s ! i))"
    and "right (segments_front s' ! i) =
           (if front_is_buffer1 s then right (segments_front s ! i)
            else right (segments_back s ! i))"
  using resize_tract_Inr(2) [OF assms(1)] resize_tract_Inr(5) [OF assms]
  by (simp_all add: segments_front_def segments_back_def)

lemma run_tract_swaps:
  assumes "run_tract rand_max rnd s glottal_source = Some (d, s')"
  shows "front_is_buffer1 s' = (\<not> front_is_buffer1 s)"
proof -
  obtain bk dr c where sp: "scatter_pass rand_max rnd s glottal_source = (bk, dr, c)"
    by (metis prod_cases3)
  show ?thesis by (rule run_tract_front(5) [OF assms sp])
qed

subsection \<open>Rounding to a \<^verbatim>\<open>double\<close>\<close>

text \<open>
  The rounding is odd and monotone, it keeps the numbers with a significand of 53 bits
  (the powers of 2 among them), and the result of rounding is such a number.
\<close>

lemma pow2_powr: "pow2 k = 2 powr (real_of_int k)"
proof (cases "0 \<le> k")
  case True
  then have "real_of_int k = real (nat k)" by simp
  then have "(2::real) powr (real_of_int k) = 2 ^ nat k"
    by (simp only: powr_realpow zero_less_numeral)
  then show ?thesis using True by (simp add: pow2_def)
next
  case False
  then have "real_of_int k = - real (nat (- k))" by simp
  then have "(2::real) powr (real_of_int k) = 1 / 2 ^ nat (- k)"
    by (simp only: powr_minus powr_realpow zero_less_numeral inverse_eq_divide)
  then show ?thesis using False by (simp add: pow2_def)
qed

lemma pow2_pos [simp]: "0 < pow2 k"
  by (simp add: pow2_powr)

lemma pow2_nonneg [simp]: "0 \<le> pow2 k"
  by (simp add: pow2_powr)

lemma pow2_neq0 [simp]: "pow2 k \<noteq> 0"
  by (simp add: pow2_powr)

lemma pow2_add: "pow2 (a + b) = pow2 a * pow2 b"
  by (simp add: pow2_powr powr_add)

lemma pow2_0 [simp]: "pow2 0 = 1"
  by (simp add: pow2_def)

lemma pow2_Suc: "pow2 (k + 1) = 2 * pow2 k"
  by (simp add: pow2_add) (simp add: pow2_def)

lemma pow2_cancel [simp]: "pow2 a * pow2 (- a) = 1"
  using pow2_add [of a "- a"] by simp

lemma pow2_mono: "a \<le> b \<Longrightarrow> pow2 a \<le> pow2 b"
  by (simp add: pow2_powr)

lemma pow2_strict_mono: "a < b \<Longrightarrow> pow2 a < pow2 b"
  by (simp add: pow2_powr)

lemma pow2_int: "0 \<le> k \<Longrightarrow> pow2 k = real_of_int (2 ^ nat k)"
  by (simp add: pow2_def)

lemma binade_bounds:
  assumes "x \<noteq> 0"
  shows "pow2 (binade x) \<le> \<bar>x\<bar>" and "\<bar>x\<bar> < pow2 (binade x + 1)"
proof -
  have pos: "0 < \<bar>x\<bar>" using assms by simp
  have "real_of_int (binade x) \<le> log 2 \<bar>x\<bar>" by (simp add: binade_def)
  then have "2 powr real_of_int (binade x) \<le> 2 powr log 2 \<bar>x\<bar>"
    by (simp only: powr_le_cancel_iff) 
  then show "pow2 (binade x) \<le> \<bar>x\<bar>" using pos by (simp add: pow2_powr)
  have "log 2 \<bar>x\<bar> < real_of_int (binade x + 1)" by (simp add: binade_def)
  then have "2 powr log 2 \<bar>x\<bar> < 2 powr real_of_int (binade x + 1)"
    by (simp only: powr_less_cancel_iff)
  then show "\<bar>x\<bar> < pow2 (binade x + 1)" using pos by (simp add: pow2_powr)
qed

lemma binade_eqI:
  assumes "pow2 k \<le> \<bar>x\<bar>" and "\<bar>x\<bar> < pow2 (k + 1)"
  shows "binade x = k"
proof -
  have "0 < \<bar>x\<bar>" using less_le_trans [OF pow2_pos assms(1)] .
  then have x: "x \<noteq> 0" by simp
  note b = binade_bounds [OF x]
  have "pow2 k < pow2 (binade x + 1)" using assms(1) b(2) by simp
  then have 1: "k < binade x + 1"
    using pow2_mono [of "binade x + 1" k] by (cases "k < binade x + 1") simp_all
  have "pow2 (binade x) < pow2 (k + 1)" using assms(2) b(1) by simp
  then have 2: "binade x < k + 1"
    using pow2_mono [of "k + 1" "binade x"] by (cases "binade x < k + 1") simp_all
  from 1 2 show ?thesis by simp
qed

lemma binade_minus [simp]: "binade (- x) = binade x"
  by (simp add: binade_def)

lemma binade_mono:
  assumes "0 < x" and "x \<le> y"
  shows "binade x \<le> binade y"
proof -
  have "log 2 \<bar>x\<bar> \<le> log 2 \<bar>y\<bar>" using assms by simp
  then show ?thesis unfolding binade_def by (rule floor_mono)
qed

lemma round_even_of_int [simp]: "round_even (real_of_int n) = n"
  by (simp add: round_even_def)

lemma round_even_near:
  assumes "\<bar>d\<bar> < 1 / 2"
  shows "round_even (real_of_int n + d) = n"
proof (cases "0 \<le> d")
  case True
  then have "\<lfloor>real_of_int n + d\<rfloor> = n" using assms by (simp add: floor_unique)
  then show ?thesis using assms True by (simp add: round_even_def Let_def)
next
  case False
  then have "\<lfloor>real_of_int n + d\<rfloor> = n - 1" using assms by (simp add: floor_unique)
  then show ?thesis using assms False by (simp add: round_even_def Let_def)
qed

lemma round_even_floor: "\<lfloor>x\<rfloor> \<le> round_even x"
  by (simp add: round_even_def Let_def)

lemma round_even_floor1: "round_even x \<le> \<lfloor>x\<rfloor> + 1"
  by (simp add: round_even_def Let_def)

lemma round_even_ge_int:
  assumes "real_of_int n \<le> x"
  shows "n \<le> round_even x"
proof -
  have "n \<le> \<lfloor>x\<rfloor>" using assms by (simp add: le_floor_iff)
  then show ?thesis using round_even_floor [of x] by simp
qed

lemma round_even_le_int:
  assumes "x \<le> real_of_int n"
  shows "round_even x \<le> n"
proof (cases "x = real_of_int n")
  case True
  then show ?thesis by simp
next
  case False
  then have "x < real_of_int n" using assms by simp
  then have "\<lfloor>x\<rfloor> < n" by (simp add: floor_less_iff)
  then show ?thesis using round_even_floor1 [of x] by simp
qed

lemma round_even_mono:
  assumes "x \<le> y"
  shows "round_even x \<le> round_even y"
proof (cases "\<lfloor>x\<rfloor> = \<lfloor>y\<rfloor>")
  case True
  then show ?thesis using assms by (auto simp add: round_even_def Let_def)
next
  case False
  then have "\<lfloor>x\<rfloor> < \<lfloor>y\<rfloor>" using floor_mono [OF assms] by simp
  then have "round_even x \<le> \<lfloor>y\<rfloor>" using round_even_floor1 [of x] by simp
  then show ?thesis using round_even_floor [of y] by simp
qed

lemma round_even_minus: "round_even (- x) = - round_even x"
proof (cases "x \<in> \<int>")
  case True
  then obtain n where "x = real_of_int n" by (auto elim: Ints_cases)
  then have "- x = real_of_int (- n)" by simp
  then show ?thesis unfolding \<open>x = real_of_int n\<close> by (simp only: round_even_of_int)
next
  case False
  then have "x \<noteq> real_of_int \<lfloor>x\<rfloor>" by (metis Ints_of_int)
  then have "\<lceil>x\<rceil> = \<lfloor>x\<rfloor> + 1" by (simp add: ceiling_altdef)
  then have fl: "\<lfloor>- x\<rfloor> = - \<lfloor>x\<rfloor> - 1"
    by (simp add: ceiling_def)
  show ?thesis
    unfolding round_even_def Let_def fl by auto
qed

lemma dbl_0 [simp]: "dbl 0 = 0"
  by (simp add: dbl_def)

lemma dbl_minus: "dbl (- x) = - dbl x"
  by (simp add: dbl_def round_even_minus)

lemma dbl_eval:
  assumes "pow2 k \<le> \<bar>x\<bar>" and "\<bar>x\<bar> < pow2 (k + 1)"
  shows "dbl x = real_of_int (round_even (x * pow2 (52 - k))) * pow2 (k - 52)"
proof -
  have "0 < \<bar>x\<bar>" using less_le_trans [OF pow2_pos assms(1)] .
  then have "x \<noteq> 0" by simp
  then show ?thesis by (simp add: dbl_def binade_eqI [OF assms])
qed

lemma pow2_52: "pow2 52 = real_of_int 4503599627370496"
  by (simp add: pow2_def)

lemma pow2_53: "pow2 53 = real_of_int 9007199254740992"
  by (simp add: pow2_def)

lemma pow2_mult_eq: "a + b = c \<Longrightarrow> pow2 a * pow2 b = pow2 c"
  by (simp add: pow2_add [symmetric])

lemma dbl_mantissa:
  assumes "0 < x"
  shows "4503599627370496 \<le> round_even (x * pow2 (52 - binade x))"
    and "round_even (x * pow2 (52 - binade x)) \<le> 9007199254740992"
proof -
  let ?k = "binade x"
  have x: "x \<noteq> 0" "\<bar>x\<bar> = x" using assms by simp_all
  note b = binade_bounds [OF x(1), unfolded x(2)]
  have "pow2 ?k * pow2 (52 - ?k) \<le> x * pow2 (52 - ?k)"
    using b(1) by (intro mult_right_mono) simp_all
  moreover have "pow2 ?k * pow2 (52 - ?k) = pow2 52" by (rule pow2_mult_eq) simp
  ultimately have lo: "pow2 52 \<le> x * pow2 (52 - ?k)" by simp
  have "x * pow2 (52 - ?k) \<le> pow2 (?k + 1) * pow2 (52 - ?k)"
    using b(2) by (intro mult_right_mono) simp_all
  moreover have "pow2 (?k + 1) * pow2 (52 - ?k) = pow2 53" by (rule pow2_mult_eq) simp
  ultimately have hi: "x * pow2 (52 - ?k) \<le> pow2 53" by simp
  show "4503599627370496 \<le> round_even (x * pow2 (52 - binade x))"
    using lo unfolding pow2_52 by (rule round_even_ge_int)
  show "round_even (x * pow2 (52 - binade x)) \<le> 9007199254740992"
    using hi unfolding pow2_53 by (rule round_even_le_int)
qed

lemma dbl_binade:
  assumes "0 < x"
  shows "pow2 (binade x) \<le> dbl x" and "dbl x \<le> pow2 (binade x + 1)"
proof -
  let ?k = "binade x"
  let ?m = "round_even (x * pow2 (52 - ?k))"
  have d: "dbl x = real_of_int ?m * pow2 (?k - 52)" using assms by (simp add: dbl_def)
  note m = dbl_mantissa [OF assms]
  have "pow2 52 * pow2 (?k - 52) \<le> real_of_int ?m * pow2 (?k - 52)"
    unfolding pow2_52 using m(1) by (intro mult_right_mono) simp_all
  moreover have "pow2 52 * pow2 (?k - 52) = pow2 ?k" by (rule pow2_mult_eq) simp
  ultimately show "pow2 ?k \<le> dbl x" by (simp only: d)
  have "real_of_int ?m * pow2 (?k - 52) \<le> pow2 53 * pow2 (?k - 52)"
    unfolding pow2_53 using m(2) by (intro mult_right_mono) simp_all
  moreover have "pow2 53 * pow2 (?k - 52) = pow2 (?k + 1)" by (rule pow2_mult_eq) simp
  ultimately show "dbl x \<le> pow2 (?k + 1)" by (simp only: d)
qed

lemma dbl_pos: "0 < x \<Longrightarrow> 0 < dbl x"
  using dbl_binade(1) [of x] less_le_trans [OF pow2_pos] by blast

lemma dbl_neg: "x < 0 \<Longrightarrow> dbl x < 0"
  using dbl_pos [of "- x"] by (simp add: dbl_minus)

lemma dbl_nonneg: "0 \<le> x \<Longrightarrow> 0 \<le> dbl x"
  using dbl_pos [of x] by (cases "x = 0") simp_all

lemma dbl_nonpos: "x \<le> 0 \<Longrightarrow> dbl x \<le> 0"
  using dbl_neg [of x] by (cases "x = 0") simp_all

lemma dbl_mono_pos:
  assumes "0 < x" and "x \<le> y"
  shows "dbl x \<le> dbl y"
proof -
  have y: "0 < y" using assms by simp
  have k: "binade x \<le> binade y" using assms by (rule binade_mono)
  show ?thesis
  proof (cases "binade x = binade y")
    case True
    have "x * pow2 (52 - binade y) \<le> y * pow2 (52 - binade y)"
      using assms(2) by (intro mult_right_mono) simp_all
    then have "round_even (x * pow2 (52 - binade y)) \<le> round_even (y * pow2 (52 - binade y))"
      by (rule round_even_mono)
    then have "real_of_int (round_even (x * pow2 (52 - binade y))) * pow2 (binade y - 52)
                 \<le> real_of_int (round_even (y * pow2 (52 - binade y))) * pow2 (binade y - 52)"
      by (intro mult_right_mono) simp_all
    then show ?thesis using assms(1) y True by (simp add: dbl_def)
  next
    case False
    then have "binade x + 1 \<le> binade y" using k by simp
    then have "pow2 (binade x + 1) \<le> pow2 (binade y)" by (rule pow2_mono)
    then show ?thesis
      using dbl_binade(2) [OF assms(1)] dbl_binade(1) [OF y] by simp
  qed
qed

lemma dbl_mono:
  assumes "x \<le> y"
  shows "dbl x \<le> dbl y"
proof -
  consider "0 < x" | "x \<le> 0" "0 \<le> y" | "y < 0" by linarith
  then show ?thesis
  proof cases
    case 1
    then show ?thesis using assms by (rule dbl_mono_pos)
  next
    case 2
    then show ?thesis using dbl_nonpos [of x] dbl_nonneg [of y] by simp
  next
    case 3
    then have "0 < - y" "- y \<le> - x" using assms by simp_all
    then have "dbl (- y) \<le> dbl (- x)" by (rule dbl_mono_pos)
    then show ?thesis by (simp add: dbl_minus)
  qed
qed

lemma dbl_repr_pos:
  assumes "4503599627370496 \<le> m" and "m \<le> 9007199254740992"
  shows "dbl (real_of_int m * pow2 j) = real_of_int m * pow2 j"
proof (cases "m = 9007199254740992")
  case True
  have "pow2 53 * pow2 j = pow2 (j + 53)" by (rule pow2_mult_eq) simp
  then have x: "real_of_int m * pow2 j = pow2 (j + 53)"
    unfolding True by (simp only: pow2_53)
  have b1: "pow2 (j + 53) \<le> \<bar>pow2 (j + 53)\<bar>" by simp
  have b2: "\<bar>pow2 (j + 53)\<bar> < pow2 (j + 53 + 1)" by (simp add: pow2_strict_mono)
  have "pow2 (j + 53) * pow2 (52 - (j + 53)) = pow2 52"
    by (rule pow2_mult_eq) simp
  then have "pow2 (j + 53) * pow2 (52 - (j + 53)) = real_of_int 4503599627370496"
    by (simp only: pow2_52)
  then have "dbl (pow2 (j + 53)) = real_of_int 4503599627370496 * pow2 (j + 53 - 52)"
    unfolding dbl_eval [OF b1 b2] by (simp only: round_even_of_int)
  also have "\<dots> = pow2 52 * pow2 (j + 53 - 52)" by (simp only: pow2_52)
  also have "\<dots> = pow2 (j + 53)" by (rule pow2_mult_eq) simp
  finally show ?thesis unfolding x .
next
  case False
  then have m: "m < 9007199254740992" using assms(2) by simp
  let ?x = "real_of_int m * pow2 j"
  have mp: "0 < real_of_int m" using assms(1) by simp
  have ax: "\<bar>?x\<bar> = ?x" using mp by simp
  have "pow2 52 * pow2 j \<le> ?x"
    unfolding pow2_52 using assms(1) by (intro mult_right_mono) simp_all
  moreover have "pow2 52 * pow2 j = pow2 (j + 52)" by (rule pow2_mult_eq) simp
  ultimately have b1: "pow2 (j + 52) \<le> \<bar>?x\<bar>" unfolding ax by simp
  have "?x < pow2 53 * pow2 j"
    unfolding pow2_53 using m by (intro mult_strict_right_mono) simp_all
  moreover have "pow2 53 * pow2 j = pow2 (j + 52 + 1)" by (rule pow2_mult_eq) simp
  ultimately have b2: "\<bar>?x\<bar> < pow2 (j + 52 + 1)" unfolding ax by simp
  have "?x * pow2 (52 - (j + 52)) = real_of_int m * (pow2 j * pow2 (- j))"
    by (simp add: mult.assoc)
  then have a: "?x * pow2 (52 - (j + 52)) = real_of_int m" by simp
  show ?thesis
    unfolding dbl_eval [OF b1 b2] a by simp
qed

lemma dbl_idem: "dbl (dbl x) = dbl x"
proof -
  have pos: "dbl (dbl y) = dbl y" if "0 < y" for y
  proof -
    have "dbl y = real_of_int (round_even (y * pow2 (52 - binade y))) * pow2 (binade y - 52)"
      using that by (simp add: dbl_def)
    then show ?thesis
      using dbl_repr_pos [OF dbl_mantissa [OF that], of "binade y - 52"] by simp
  qed
  consider "0 < x" | "x = 0" | "x < 0" by linarith
  then show ?thesis
  proof cases
    case 1
    then show ?thesis by (rule pos)
  next
    case 2
    then show ?thesis by simp
  next
    case 3
    then have "dbl (dbl (- x)) = dbl (- x)" by (intro pos) simp
    then show ?thesis by (simp add: dbl_minus)
  qed
qed

lemma dbl_pow2 [simp]: "dbl (pow2 k) = pow2 k"
proof -
  have "dbl (real_of_int 4503599627370496 * pow2 (k - 52))
          = real_of_int 4503599627370496 * pow2 (k - 52)"
    by (rule dbl_repr_pos) simp_all
  moreover have "real_of_int 4503599627370496 * pow2 (k - 52) = pow2 k"
    unfolding pow2_52 [symmetric] by (rule pow2_mult_eq) simp
  ultimately show ?thesis by simp
qed

lemma dbl_1 [simp]: "dbl 1 = 1"
  using dbl_pow2 [of 0] by simp

lemma dbl_m1 [simp]: "dbl (- 1) = - 1"
  by (simp add: dbl_minus)




lemma dbl_multiple:
  assumes "dbl t = t" and "pow2 k \<le> t" and "t \<le> pow2 (k + 1)"
  shows "\<exists>n. t = real_of_int n * pow2 (k - 52)"
proof (cases "t = pow2 (k + 1)")
  case True
  have "pow2 53 * pow2 (k - 52) = pow2 (k + 1)" by (rule pow2_mult_eq) simp
  then have "t = real_of_int 9007199254740992 * pow2 (k - 52)"
    unfolding True by (simp only: pow2_53)
  then show ?thesis by blast
next
  case False
  have tp: "0 < t" using less_le_trans [OF pow2_pos assms(2)] .
  then have at: "\<bar>t\<bar> = t" by simp
  have b1: "pow2 k \<le> \<bar>t\<bar>" and b2: "\<bar>t\<bar> < pow2 (k + 1)"
    unfolding at using assms(2,3) False by simp_all
  from dbl_eval [OF b1 b2] assms(1)
  have "t = real_of_int (round_even (t * pow2 (52 - k))) * pow2 (k - 52)" by simp
  then show ?thesis by blast
qed



lemma dbl_tenth: "dbl (1 / 10) = 3602879701896397 / 36028797018963968"
proof -
  have b1: "pow2 (- 4) \<le> \<bar>1 / 10 :: real\<bar>" by (simp add: pow2_def)
  have b2: "\<bar>1 / 10 :: real\<bar> < pow2 (- 4 + 1)" by (simp add: pow2_def)
  have "(1 / 10 :: real) * pow2 (52 - (- 4)) = real_of_int 7205759403792794 + (- (2 / 5))"
    by (simp add: pow2_def)
  moreover have "round_even (real_of_int 7205759403792794 + (- (2 / 5))) = 7205759403792794"
    by (rule round_even_near) simp
  ultimately have "round_even ((1 / 10 :: real) * pow2 (52 - (- 4))) = 7205759403792794"
    by simp
  then show ?thesis
    unfolding dbl_eval [OF b1 b2] by (simp add: pow2_def)
qed

lemma dbl_tie_to_even:
  "dbl (1 + 1 / 2 ^ 53) = 1" "dbl (1 + 3 / 2 ^ 53) = 1 + 1 / 2 ^ 51"
proof -
  have b1: "pow2 0 \<le> \<bar>1 + 1 / 2 ^ 53 :: real\<bar>" by (simp add: pow2_def)
  have b2: "\<bar>1 + 1 / 2 ^ 53 :: real\<bar> < pow2 (0 + 1)" by (simp add: pow2_def)
  have "round_even ((1 + 1 / 2 ^ 53) * pow2 (52 - 0)) = 4503599627370496"
    by (simp add: pow2_def round_even_def Let_def)
  then show "dbl (1 + 1 / 2 ^ 53) = 1"
    unfolding dbl_eval [OF b1 b2] by (simp add: pow2_def)
  have c1: "pow2 0 \<le> \<bar>1 + 3 / 2 ^ 53 :: real\<bar>" by (simp add: pow2_def)
  have c2: "\<bar>1 + 3 / 2 ^ 53 :: real\<bar> < pow2 (0 + 1)" by (simp add: pow2_def)
  have "round_even ((1 + 3 / 2 ^ 53) * pow2 (52 - 0)) = 4503599627370498"
    by (simp add: pow2_def round_even_def Let_def)
  then show "dbl (1 + 3 / 2 ^ 53) = 1 + 1 / 2 ^ 51"
    unfolding dbl_eval [OF c1 c2] by (simp add: pow2_def)
qed

text \<open>
  Two numbers with a significand of 53 bits differ by at least the fraction
  \<open>1 / 2 ^ 53\<close> of the larger, so the rounded quotient of two different ones is not 1.
\<close>

lemma dbl_grid_gap:
  assumes "x = real_of_int m * s" and "y = real_of_int n * s" and "x < y" and "0 < s"
  shows "x + s \<le> y"
proof -
  have "real_of_int m * s < real_of_int n * s" using assms(1,2,3) by simp
  then have "real_of_int m < real_of_int n" using assms(4) by (simp add: mult_less_cancel_right)
  then have "m + 1 \<le> n" by simp
  then have "real_of_int (m + 1) \<le> real_of_int n" by (simp only: of_int_le_iff)
  then have "real_of_int (m + 1) * s \<le> real_of_int n * s"
    using assms(4) by (intro mult_right_mono) simp_all
  then show ?thesis unfolding assms(1,2) by (simp add: algebra_simps)
qed

lemma dbl_gap:
  assumes "dbl a = a" and "dbl b = b" and "0 \<le> a" and "a < b"
  shows "a \<le> b * (1 - 1 / 2 ^ 53)"
proof -
  define k where "k = binade b"
  let ?s = "pow2 (k - 52)"
  have bp: "0 < b" using assms(3,4) by simp
  then have b0: "b \<noteq> 0" and ab: "\<bar>b\<bar> = b" by simp_all
  note bb = binade_bounds [OF b0, unfolded ab, folded k_def]
  have s53: "?s * 2 ^ 53 = pow2 (k + 1)"
  proof -
    have "?s * pow2 53 = pow2 (k + 1)" by (rule pow2_mult_eq) simp
    then show ?thesis by (simp add: pow2_53)
  qed
  have h53: "pow2 (k - 53) * 2 ^ 53 = pow2 k"
  proof -
    have "pow2 (k - 53) * pow2 53 = pow2 k" by (rule pow2_mult_eq) simp
    then show ?thesis by (simp add: pow2_53)
  qed
  have small: "b / 2 ^ 53 \<le> ?s"
  proof -
    have "b \<le> ?s * 2 ^ 53" using bb(2) s53 by simp
    then show ?thesis by (simp add: pos_divide_le_eq)
  qed
  have b_le: "b \<le> pow2 (k + 1)" using bb(2) by simp
  from dbl_multiple [OF assms(2) bb(1) b_le] obtain n where n: "b = real_of_int n * ?s" by blast
  have wide: "a + ?s \<le> b \<Longrightarrow> ?thesis"
  proof -
    assume "a + ?s \<le> b"
    then have "a \<le> b - ?s" by simp
    also have "\<dots> \<le> b - b / 2 ^ 53" using small by simp
    finally show ?thesis by (simp add: algebra_simps)
  qed
  consider "pow2 k \<le> a" | "a < pow2 k" "pow2 k < b" | "a < pow2 k" "b = pow2 k"
    using bb(1) by linarith
  then show ?thesis
  proof cases
    case 1
    have "a \<le> pow2 (k + 1)" using assms(4) b_le by simp
    from dbl_multiple [OF assms(1) 1 this] obtain m where m: "a = real_of_int m * ?s" by blast
    from dbl_grid_gap [OF m n assms(4)] show ?thesis by (intro wide) simp
  next
    case 2
    have p: "pow2 k = real_of_int 4503599627370496 * ?s"
    proof -
      have "pow2 52 * ?s = pow2 k" by (rule pow2_mult_eq) simp
      then show ?thesis by (simp only: pow2_52)
    qed
    from dbl_grid_gap [OF p n 2(2)] have "pow2 k + ?s \<le> b" by simp
    then show ?thesis using 2(1) by (intro wide) simp
  next
    case 3
    show ?thesis
    proof (cases "pow2 (k - 1) \<le> a")
      case True
      have km: "k - 1 + 1 = k" by simp
      have "a \<le> pow2 (k - 1 + 1)" using 3(1) by (simp only: km)
      from dbl_multiple [OF assms(1) True this] obtain m where
        m: "a = real_of_int m * pow2 (k - 1 - 52)" by blast
      have k53: "k - 1 - 52 = k - 53" by simp
      have q: "b = real_of_int 9007199254740992 * pow2 (k - 1 - 52)"
      proof -
        have "pow2 53 * pow2 (k - 1 - 52) = pow2 k" by (rule pow2_mult_eq) simp
        then show ?thesis using 3(2) by (simp only: pow2_53)
      qed
      from dbl_grid_gap [OF m q assms(4)] have "a + pow2 (k - 53) \<le> b"
        by (simp add: k53)
      then have "a \<le> b - pow2 (k - 53)" by simp
      also have "pow2 (k - 53) = b / 2 ^ 53"
        using h53 3(2) by (simp add: field_simps)
      finally show ?thesis by (simp add: algebra_simps)
    next
      case False
      then have "a < pow2 (k - 1)" by simp
      moreover have "2 * pow2 (k - 1) = b"
        using 3(2) pow2_Suc [of "k - 1"] by simp
      ultimately have "a < b / 2" by simp
      moreover have "b / 2 \<le> b * (1 - 1 / 2 ^ 53)" using bp by (simp add: field_simps)
      ultimately show ?thesis by simp
    qed
  qed
qed

lemma dbl_below_1: "dbl (1 - 1 / 2 ^ 53) = 1 - 1 / 2 ^ 53"
proof -
  have e: "real_of_int 9007199254740991 * pow2 (- 53) = 1 - 1 / 2 ^ 53"
    by (simp add: pow2_def)
  have "dbl (real_of_int 9007199254740991 * pow2 (- 53))
          = real_of_int 9007199254740991 * pow2 (- 53)"
    by (rule dbl_repr_pos) simp_all
  then show ?thesis unfolding e .
qed

lemma dbl_quotient_inside:
  assumes "dbl a = a" and "dbl b = b" and "0 \<le> a" and "a < b"
  shows "dbl (a / b) < 1"
proof -
  have bp: "0 < b" using assms(3,4) by simp
  have "a / b \<le> 1 - 1 / 2 ^ 53"
    using dbl_gap [OF assms] bp by (simp add: pos_divide_le_eq mult.commute)
  then have "dbl (a / b) \<le> dbl (1 - 1 / 2 ^ 53)" by (rule dbl_mono)
  then have "dbl (a / b) \<le> 1 - 1 / 2 ^ 53" by (simp only: dbl_below_1)
  then show ?thesis by simp
qed

subsection \<open>The exact quotient and the exact update\<close>

text \<open>
  Without rounding the reflection coefficient of two positive impedances is strictly
  between \<open>-1\<close> and \<open>1\<close>, and the articulation filter with a drag in \<open>(0, 1]\<close> comes
  closer to its target than any positive bound.
\<close>

lemma reflection_exact_bounds:
  assumes "0 < z1" and "0 < z2"
  shows "reflection z1 z2 = (z2 - z1) / (z2 + z1)
       \<and> - 1 < reflection z1 z2 \<and> reflection z1 z2 < 1
       \<and> reflection z1 z2 = - reflection z2 z1"
proof -
  have pos: "0 < z2 + z1" using assms by simp
  have lo: "- 1 < (z2 - z1) / (z2 + z1)"
    using assms pos by (simp add: pos_less_divide_eq)
  have hi: "(z2 - z1) / (z2 + z1) < 1"
    using assms pos by (simp add: pos_divide_less_eq)
  have anti: "(z2 - z1) / (z2 + z1) = - ((z1 - z2) / (z1 + z2))"
  proof -
    have "z2 - z1 = - (z1 - z2)" by simp
    then have "(z2 - z1) / (z2 + z1) = (- (z1 - z2)) / (z1 + z2)"
      by (simp only: add.commute)
    then show ?thesis by (simp only: minus_divide_left)
  qed
  show ?thesis
    unfolding reflection_def using lo hi anti by simp
qed

lemma advance_exact_converges:
  assumes "0 < drag" and "drag \<le> 1" and "f \<in> set phoneme_fields"
  shows "f (advance drag tgt cur) = f cur + (f tgt - f cur) * drag
       \<and> (\<forall>n. \<bar>f ((advance drag tgt ^^ Suc n) cur) - f tgt\<bar>
                \<le> \<bar>f ((advance drag tgt ^^ n) cur) - f tgt\<bar>)
       \<and> (\<forall>n. f cur \<le> f tgt \<longrightarrow>
                f ((advance drag tgt ^^ n) cur) \<le> f ((advance drag tgt ^^ Suc n) cur)
              \<and> f ((advance drag tgt ^^ Suc n) cur) \<le> f tgt)
       \<and> (\<forall>n. f tgt \<le> f cur \<longrightarrow>
                f tgt \<le> f ((advance drag tgt ^^ Suc n) cur)
              \<and> f ((advance drag tgt ^^ Suc n) cur) \<le> f ((advance drag tgt ^^ n) cur))
       \<and> (\<forall>e>0. \<exists>N. \<forall>n\<ge>N. \<bar>f ((advance drag tgt ^^ n) cur) - f tgt\<bar> < e)"
proof -
  let ?x = "1 - drag"
  let ?it = "\<lambda>n. f ((advance drag tgt ^^ n) cur)"
  have x: "0 \<le> ?x" "?x < 1" "?x \<le> 1" using assms by simp_all
  have err: "\<And>n. ?it n - f tgt = ?x ^ n * (f cur - f tgt)"
    by (rule advance_error [OF assms(3)])
  have step: "\<And>n. ?it (Suc n) - f tgt = ?x * (?it n - f tgt)"
    by (simp add: advance_field [OF assms(3)] algebra_simps)
  have xn: "\<And>n. 0 \<le> ?x ^ n" using x by simp
  have one: "f (advance drag tgt cur) = f cur + (f tgt - f cur) * drag"
    by (rule advance_field [OF assms(3)])
  have dist: "\<forall>n. \<bar>?it (Suc n) - f tgt\<bar> \<le> \<bar>?it n - f tgt\<bar>"
  proof
    fix n
    have "\<bar>?it (Suc n) - f tgt\<bar> = ?x * \<bar>?it n - f tgt\<bar>"
      using step [of n] x by (simp add: abs_mult)
    also have "\<dots> \<le> 1 * \<bar>?it n - f tgt\<bar>"
      using x by (intro mult_right_mono) simp_all
    finally show "\<bar>?it (Suc n) - f tgt\<bar> \<le> \<bar>?it n - f tgt\<bar>" by simp
  qed
  have up: "\<forall>n. f cur \<le> f tgt \<longrightarrow> ?it n \<le> ?it (Suc n) \<and> ?it (Suc n) \<le> f tgt"
  proof (intro allI impI)
    fix n assume le: "f cur \<le> f tgt"
    have neg: "?it n - f tgt \<le> 0"
      using err [of n] xn [of n] le by (simp add: mult_nonneg_nonpos)
    have "?x * (?it n - f tgt) \<le> 0" using neg x by (simp add: mult_nonneg_nonpos)
    moreover have "?it n - f tgt \<le> ?x * (?it n - f tgt)"
      using neg x mult_right_mono_neg [of ?x 1 "?it n - f tgt"] by simp
    ultimately show "?it n \<le> ?it (Suc n) \<and> ?it (Suc n) \<le> f tgt"
      using step [of n] by linarith
  qed
  have down: "\<forall>n. f tgt \<le> f cur \<longrightarrow> f tgt \<le> ?it (Suc n) \<and> ?it (Suc n) \<le> ?it n"
  proof (intro allI impI)
    fix n assume le: "f tgt \<le> f cur"
    have pos: "0 \<le> ?it n - f tgt"
      using err [of n] xn [of n] le by simp
    have "0 \<le> ?x * (?it n - f tgt)" using pos x by simp
    moreover have "?x * (?it n - f tgt) \<le> ?it n - f tgt"
      using pos x mult_right_mono [of ?x 1 "?it n - f tgt"] by simp
    ultimately show "f tgt \<le> ?it (Suc n) \<and> ?it (Suc n) \<le> ?it n"
      using step [of n] by linarith
  qed
  have lim: "\<forall>e>0. \<exists>N. \<forall>n\<ge>N. \<bar>?it n - f tgt\<bar> < e"
  proof (intro allI impI)
    fix e :: real assume e: "0 < e"
    from power_below [OF x(1) x(2) e, of "\<bar>f cur - f tgt\<bar>"]
    obtain N where N: "\<forall>n\<ge>N. ?x ^ n * \<bar>f cur - f tgt\<bar> < e" by auto
    have "\<forall>n\<ge>N. \<bar>?it n - f tgt\<bar> < e"
    proof (intro allI impI)
      fix n assume "N \<le> n"
      have "\<bar>?it n - f tgt\<bar> = ?x ^ n * \<bar>f cur - f tgt\<bar>"
        using err [of n] xn [of n] by (simp add: abs_mult)
      then show "\<bar>?it n - f tgt\<bar> < e" using N \<open>N \<le> n\<close> by simp
    qed
    then show "\<exists>N. \<forall>n\<ge>N. \<bar>?it n - f tgt\<bar> < e" ..
  qed
  show ?thesis using one dist up down lim by blast
qed

subsection \<open>The wall terms on the states of the model\<close>

text \<open>
  On the states of the model every rigidity is 1, both wall-compliance terms
  \<open>reflection * (1 - rigidity)\<close> of every segment are zero, and the impedance the
  scattering pass writes is the one of the carry-over pass, passed through the guard
  once more.
\<close>

lemma reachable_wall_terms_zero:
  assumes "reachable valid jack_rate s"
  shows "list_all (\<lambda>seg. rigidity seg = 1) (buffer1 s)
       \<and> list_all (\<lambda>seg. rigidity seg = 1) (buffer2 s)
       \<and> (\<forall>i<nat (nsegments s).
             wall_right (segments_front s) i = 0
           \<and> wall_left (nsegments s) (segments_front s) i = 0)
       \<and> (\<forall>rand_max rnd glottal_source. \<forall>i<nat (nsegments s).
             z (fst (scatter_pass rand_max rnd s glottal_source) ! i) =
               1 / clamp_area (1 / z (carry_over (segments_front s ! i))))"
proof -
  have rc: "rigid_chain s" using assms by (rule reachable_rigid)
  note inv = rc [unfolded rigid_chain_front_back]
  have w: "\<forall>i<nat (nsegments s).
             wall_right (segments_front s) i = 0
           \<and> wall_left (nsegments s) (segments_front s) i = 0"
    using inv by (simp add: wall_right_def wall_left_def)
  have "\<forall>rand_max rnd glottal_source. \<forall>i<nat (nsegments s).
             z (fst (scatter_pass rand_max rnd s glottal_source) ! i) =
               1 / clamp_area (1 / z (carry_over (segments_front s ! i)))"
  proof (intro allI impI)
    fix rand_max :: int and rnd :: "nat \<Rightarrow> int" and glottal_source :: real and i
    assume i: "i < nat (nsegments s)"
    obtain bk dr c where sp: "scatter_pass rand_max rnd s glottal_source = (bk, dr, c)"
      by (metis prod_cases3)
    from scatter_pass_frame(2) [OF sp i] w i
    show "z (fst (scatter_pass rand_max rnd s glottal_source) ! i) =
               1 / clamp_area (1 / z (carry_over (segments_front s ! i)))"
      by (simp add: sp)
  qed
  with rc w show ?thesis by (simp add: rigid_chain_def)
qed

subsection \<open>The rounded reflection coefficient\<close>

text \<open>
  Rounding keeps the order and the sign, so the rounded difference is between minus the
  rounded sum and the rounded sum, and the rounded quotient between \<open>-1\<close> and 1.
\<close>

lemma reflection_with_exact: "reflection_with (\<lambda>x. x) z1 z2 = reflection z1 z2"
  by (simp add: reflection_with_def reflection_def)

lemma reflection_double_antisymmetric:
  "reflection_with dbl z1 z2 = - reflection_with dbl z2 z1"
proof -
  have "z2 - z1 = - (z1 - z2)" by simp
  then have d: "dbl (z2 - z1) = - dbl (z1 - z2)" by (simp only: dbl_minus)
  have s: "dbl (z2 + z1) = dbl (z1 + z2)" by (simp only: add.commute)
  have "dbl (dbl (z2 - z1) / dbl (z2 + z1)) = dbl (- (dbl (z1 - z2) / dbl (z1 + z2)))"
    unfolding d s by simp
  then show ?thesis by (simp only: reflection_with_def dbl_minus)
qed

lemma reflection_double_bounded:
  assumes "0 < z1" and "0 < z2"
  shows "- 1 \<le> reflection_with dbl z1 z2" and "reflection_with dbl z1 z2 \<le> 1"
proof -
  let ?a = "dbl (z2 - z1)" and ?b = "dbl (z2 + z1)"
  have b: "0 < ?b" using assms by (intro dbl_pos) simp
  have "z2 - z1 \<le> z2 + z1" using assms by simp
  then have hi: "?a \<le> ?b" by (rule dbl_mono)
  have "- (z2 + z1) \<le> z2 - z1" using assms by simp
  then have "dbl (- (z2 + z1)) \<le> ?a" by (rule dbl_mono)
  then have lo: "- ?b \<le> ?a" by (simp only: dbl_minus)
  have q1: "?a / ?b \<le> 1" using hi b by (simp add: pos_divide_le_eq)
  have q2: "- 1 \<le> ?a / ?b" using lo b by (simp add: pos_le_divide_eq)
  have "dbl (?a / ?b) \<le> dbl 1" using q1 by (rule dbl_mono)
  then show "reflection_with dbl z1 z2 \<le> 1" by (simp add: reflection_with_def)
  have "dbl (- 1) \<le> dbl (?a / ?b)" using q2 by (rule dbl_mono)
  then show "- 1 \<le> reflection_with dbl z1 z2" by (simp add: reflection_with_def)
qed

lemma reflection_double_inside:
  assumes "0 < z1" and "0 < z2" and "\<bar>dbl (z2 - z1)\<bar> \<noteq> dbl (z2 + z1)"
  shows "- 1 < reflection_with dbl z1 z2" and "reflection_with dbl z1 z2 < 1"
proof -
  let ?a = "dbl (z2 - z1)" and ?b = "dbl (z2 + z1)"
  have b: "0 < ?b" using assms(1,2) by (intro dbl_pos) simp
  have ra: "dbl ?a = ?a" and rb: "dbl ?b = ?b" by (rule dbl_idem)+
  have "z2 - z1 \<le> z2 + z1" using assms(1) by simp
  then have hi: "?a \<le> ?b" by (rule dbl_mono)
  have "- (z2 + z1) \<le> z2 - z1" using assms(2) by simp
  then have "dbl (- (z2 + z1)) \<le> ?a" by (rule dbl_mono)
  then have lo: "- ?b \<le> ?a" by (simp only: dbl_minus)
  have strict: "\<bar>?a\<bar> < ?b" using hi lo assms(3) by linarith
  have r: "reflection_with dbl z1 z2 = dbl (?a / ?b)" by (simp only: reflection_with_def)
  show "reflection_with dbl z1 z2 < 1"
  proof (cases "0 \<le> ?a")
    case True
    then have "?a < ?b" using strict by simp
    from dbl_quotient_inside [OF ra rb True this] show ?thesis by (simp only: r)
  next
    case False
    then have "?a / ?b \<le> 0" using b by (simp add: divide_nonpos_pos)
    then have "dbl (?a / ?b) \<le> 0" by (rule dbl_nonpos)
    then show ?thesis unfolding r by simp
  qed
  show "- 1 < reflection_with dbl z1 z2"
  proof (cases "?a \<le> 0")
    case True
    have rn: "dbl (- ?a) = - ?a" by (simp only: dbl_minus ra)
    have "0 \<le> - ?a" "- ?a < ?b" using True strict by simp_all
    from dbl_quotient_inside [OF rn rb this] have "dbl (- (?a / ?b)) < 1" by simp
    then have "- dbl (?a / ?b) < 1" by (simp only: dbl_minus)
    then show ?thesis unfolding r by simp
  next
    case False
    then have "0 \<le> ?a / ?b" using b by simp
    then have "0 \<le> dbl (?a / ?b)" by (rule dbl_nonneg)
    then show ?thesis unfolding r by simp
  qed
qed

lemma reflection_double_extreme:
  assumes "0 < z1" and "0 < z2" and "\<bar>dbl (z2 - z1)\<bar> = dbl (z2 + z1)"
  shows "\<bar>reflection_with dbl z1 z2\<bar> = 1"
proof -
  let ?a = "dbl (z2 - z1)" and ?b = "dbl (z2 + z1)"
  have b: "0 < ?b" using assms(1,2) by (intro dbl_pos) simp
  have r: "reflection_with dbl z1 z2 = dbl (?a / ?b)" by (simp only: reflection_with_def)
  from assms(3) consider "?a = ?b" | "?a = - ?b" by (auto simp add: abs_if split: if_splits)
  then show ?thesis
  proof cases
    case 1
    then have "?a / ?b = 1" using b by simp
    then show ?thesis unfolding r by simp
  next
    case 2
    then have "?a / ?b = - 1" using b by simp
    then show ?thesis unfolding r by simp
  qed
qed

lemma dbl_just_below_1: "dbl (1 - 1 / 2 ^ 70) = 1"
proof -
  let ?x = "1 - 1 / 2 ^ 70 :: real"
  have b1: "pow2 (- 1) \<le> \<bar>?x\<bar>" by (simp add: pow2_def)
  have b2: "\<bar>?x\<bar> < pow2 (- 1 + 1)" by (simp add: pow2_def)
  have "?x * pow2 (52 - (- 1)) = real_of_int 9007199254740992 + (- (1 / 2 ^ 17))"
    by (simp add: pow2_def)
  moreover have "round_even (real_of_int 9007199254740992 + (- (1 / 2 ^ 17))) = 9007199254740992"
    by (rule round_even_near) simp
  ultimately have "round_even (?x * pow2 (52 - (- 1))) = 9007199254740992" by simp
  then show ?thesis
    unfolding dbl_eval [OF b1 b2] by (simp add: pow2_def)
qed

lemma dbl_just_above_1: "dbl (1 + 1 / 2 ^ 70) = 1"
proof -
  let ?x = "1 + 1 / 2 ^ 70 :: real"
  have b1: "pow2 0 \<le> \<bar>?x\<bar>" by (simp add: pow2_def)
  have b2: "\<bar>?x\<bar> < pow2 (0 + 1)" by (simp add: pow2_def)
  have "?x * pow2 (52 - 0) = real_of_int 4503599627370496 + 1 / 2 ^ 18"
    by (simp add: pow2_def)
  moreover have "round_even (real_of_int 4503599627370496 + 1 / 2 ^ 18) = 4503599627370496"
    by (rule round_even_near) simp
  ultimately have "round_even (?x * pow2 (52 - 0)) = 4503599627370496" by simp
  then show ?thesis
    unfolding dbl_eval [OF b1 b2] by (simp add: pow2_def)
qed

lemma dbl_tiny: "dbl (1 / 2 ^ 70) = 1 / 2 ^ 70"
  using dbl_pow2 [of "- 70"] by (simp add: pow2_def)

subsection \<open>The rounded articulation update\<close>
















section \<open>Properties\<close>

subsection \<open>The glottis\<close>

text \<open>
  Claim C1, as the program has it.  In one sample of \<^verbatim>\<open>run_tract\<close> on a chain of at
  least one segment, the right-going amplitude that the back buffer holds at the
  glottis (index 0) after the two loops, which is the front buffer's when \<^verbatim>\<open>run_tract\<close>
  returns, is the front buffer's
  left-going amplitude attenuated by \<open>1 - damping\<close>, plus the glottal source sample
  scaled by \<open>1 - reflection DRAIN_Z z\<close> for the impedance \<open>z\<close> of the front buffer's
  segment 0, plus the diaphragm pressure.  The reflection at the glottis is without
  loss only when the damping is zero.
\<close>

theorem C1_glottis_reflection_damped:
  assumes "0 < nsegments s"
  shows "right (fst (scatter_pass rand_max rnd s glottal_source) ! 0) =
           left (segments_front s ! 0) * (1 - damping s)
           + glottal_source * (1 - reflection DRAIN_Z (z (segments_front s ! 0)))
           + diaphram_pressure s
       \<and> (\<forall>d s'. run_tract rand_max rnd s glottal_source = Some (d, s') \<longrightarrow>
             right (segments_front s' ! 0) =
               left (segments_front s ! 0) * (1 - damping s)
               + glottal_source * (1 - reflection DRAIN_Z (z (segments_front s ! 0)))
               + diaphram_pressure s)"
proof -
  obtain bk dr c where sp: "scatter_pass rand_max rnd s glottal_source = (bk, dr, c)"
    by (metis prod_cases3)
  have r: "right (bk ! 0) =
           left (segments_front s ! 0) * (1 - damping s)
           + glottal_source * (1 - reflection DRAIN_Z (z (segments_front s ! 0)))
           + diaphram_pressure s"
    using scatter_pass_frame(5) [OF sp assms] .
  have n: "0 < nat (nsegments s)" using assms by simp
  have "right (segments_front s' ! 0) = right (bk ! 0)"
    if "run_tract rand_max rnd s glottal_source = Some (d, s')" for d s'
    using run_tract_front(6) [OF that sp n] by simp
  with r sp show ?thesis by simp
qed

text \<open>
  With the default damping \<open>0.04\<close>, no source and no pressure, a left-going amplitude
  \<open>1\<close> at the glottis is reflected as \<open>0.96\<close>, not as \<open>1\<close>.
\<close>

theorem C1_lossless_glottis_counterexample:
  "right (fst (scatter_pass 32767 rand_zero glottis_state 0) ! 0) \<noteq>
     left (segments_front glottis_state ! 0)
     + 0 * (1 - reflection DRAIN_Z (z (segments_front glottis_state ! 0)))
     + diaphram_pressure glottis_state"
proof -
  obtain bk dr c where sp: "scatter_pass 32767 rand_zero glottis_state 0 = (bk, dr, c)"
    by (metis prod_cases3)
  have n: "0 < nsegments glottis_state"
    by (simp add: glottis_state_def demo_chain_def)
  have "right (bk ! 0) = 24 / 25"
    using scatter_pass_frame(5) [OF sp n]
    by (simp add: glottis_state_def demo_chain_def main_globals_def segments_front_def
          neutral_segment_def DEFAULT_DAMPING_def)
  moreover have "left (segments_front glottis_state ! 0)
     + 0 * (1 - reflection DRAIN_Z (z (segments_front glottis_state ! 0)))
     + diaphram_pressure glottis_state = 1"
    by (simp add: glottis_state_def demo_chain_def main_globals_def segments_front_def
          neutral_segment_def)
  ultimately show ?thesis using sp by simp
qed

text \<open>The statement of the glottis on the same chain.\<close>

theorem C1_glottis_reflection_witness:
  "0 < nsegments glottis_state
   \<and> right (fst (scatter_pass 32767 rand_zero glottis_state 0) ! 0) = 24 / 25
   \<and> (\<exists>d s'. run_tract 32767 rand_zero glottis_state 0 = Some (d, s')
         \<and> right (segments_front s' ! 0) = 24 / 25)"
proof -
  have n: "0 < nsegments glottis_state"
    by (simp add: glottis_state_def demo_chain_def)
  have "nsegments glottis_state = 1"
    by (simp add: glottis_state_def demo_chain_def)
  then have "tongue_stop (nsegments glottis_state) - tongue_start (nsegments glottis_state) \<noteq> 1"
    by (simp add: tongue_bounds_1)
  from run_tract_defined [OF this] obtain d s' where
    rt: "run_tract 32767 rand_zero glottis_state 0 = Some (d, s')" by blast
  have v: "left (segments_front glottis_state ! 0) * (1 - damping glottis_state)
           + 0 * (1 - reflection DRAIN_Z (z (segments_front glottis_state ! 0)))
           + diaphram_pressure glottis_state = 24 / 25"
    by (simp add: glottis_state_def demo_chain_def main_globals_def segments_front_def
          neutral_segment_def DEFAULT_DAMPING_def)
  note t = C1_glottis_reflection_damped [OF n, of 32767 rand_zero 0]
  have a: "right (fst (scatter_pass 32767 rand_zero glottis_state 0) ! 0) = 24 / 25"
    using t v by simp
  have b: "right (segments_front s' ! 0) = 24 / 25"
    using t rt v by simp
  show ?thesis using n a b rt by blast
qed

subsection \<open>Positive impedances\<close>

text \<open>
  Claim C2, where the program breaks it.  At the sample rate 11025 Hz the program
  starts with a chain of 5 segments; the control change that sets the tract length to
  its minimum (8 cm) resizes the chain to 2 segments, of which the tongue zone is the
  segment 0 alone, and the shape function divides \<open>0\<close> by \<open>ntongue - 1 = 0\<close>: the
  impedance of the segment 0 is not a number, and no guard of \<^verbatim>\<open>run_tract\<close> replaces
  it.  (In the states where the shape function has a value all impedances are positive:
  lemma \<open>reachable_impedance_positive\<close>.  The guards replace a negative area only:
  lemma \<open>clamp_area_not_a_floor\<close>.)
\<close>

theorem C2_single_tongue_segment_not_a_number:
  "\<exists>s0. init_tract 11025 True True TRACT_LENGTH main_globals = Inr s0
      \<and> nsegments s0 = 5
      \<and> unit_pos 0 (tongue_start 2) (tongue_stop 2 - tongue_start 2) = None
      \<and> process_event 11025 True True (Midi 176 24 0) s0 = Inl NotANumber"
proof -
  have "\<exists>s. init_tract 11025 True True TRACT_LENGTH main_globals = Inr s"
    by (rule init_tract_defined) (simp_all add: segment_count_values tongue_bounds_values)
  then obtain s0 where init: "init_tract 11025 True True TRACT_LENGTH main_globals = Inr s0" ..
  have n: "nsegments s0 = 5"
    using init_tract_Inr(3) [OF init] by (simp add: segment_count_values)
  have up: "unit_pos 0 (tongue_start 2) (tongue_stop 2 - tongue_start 2) = None"
    by (simp add: unit_pos_def tongue_bounds_values)
  have "init_tract 11025 True True
          (map2range 0 CONTROLLER_TRACT_LENGTH_MIN CONTROLLER_TRACT_LENGTH_MAX) s0
        = Inl NotANumber"
    by (rule init_tract_NotANumber) (simp_all add: segment_count_values tongue_bounds_values)
  then have "process_event 11025 True True (Midi 176 24 0) s0 = Inl NotANumber"
    by (simp add: process_event_resize resize_tract_Inl)
  with init n up show ?thesis by blast
qed

subsection \<open>Resizing the chain\<close>

text \<open>
  Claim C3, where the program breaks it.  \<^verbatim>\<open>resize_tract\<close> copies the amplitudes of
  the old \<^verbatim>\<open>buffer1\<close> to the new \<^verbatim>\<open>buffer1\<close> and those of the old \<^verbatim>\<open>buffer2\<close> to the
  new \<^verbatim>\<open>buffer2\<close>, and the new front buffer is always \<^verbatim>\<open>buffer1\<close>; so the new front
  buffer holds what the old front buffer held only when that was \<^verbatim>\<open>buffer1\<close>, and what
  the old back buffer held otherwise (lemma \<open>resize_tract_front\<close>).  Every sample
  exchanges the roles (lemma \<open>run_tract_swaps\<close>).
  The program starts at 44100 Hz with 22 segments, runs one sample with the glottal
  source 1, and then receives the control change that sets the tract length (value 64,
  20 segments).  Before the resize the front buffer holds the injected wave \<open>2 / 51\<close>
  at the segment 0 and the back buffer holds \<open>0\<close>; after the resize the front buffer
  holds \<open>0\<close> there, what the back buffer held.
\<close>

theorem C3_resize_front_holds_old_back:
  "\<exists>s0 d s1 s2.
      init_tract 44100 True True TRACT_LENGTH main_globals = Inr s0
    \<and> run_tract 32767 rand_zero s0 1 = Some (d, s1)
    \<and> process_event 44100 True True (Midi 176 24 64) s1 = Inr s2
    \<and> right (segments_front s1 ! 0) = 2 / 51
    \<and> right (segments_back s1 ! 0) = 0
    \<and> right (segments_front s2 ! 0) = 0"
proof -
  have "\<exists>s. init_tract 44100 True True TRACT_LENGTH main_globals = Inr s"
    by (rule init_tract_defined) (simp_all add: segment_count_values tongue_bounds_values)
  then obtain s0 where init: "init_tract 44100 True True TRACT_LENGTH main_globals = Inr s0" ..
  note i0 = init_tract_Inr [OF init]
  have n0: "nsegments s0 = 22" using i0(3) by (simp add: segment_count_values)
  have "\<exists>d s1. run_tract 32767 rand_zero s0 1 = Some (d, s1)"
    by (rule run_tract_defined) (simp add: n0 tongue_bounds_values)
  then obtain d s1 where run: "run_tract 32767 rand_zero s0 1 = Some (d, s1)" by blast
  obtain bk dr c where sp: "scatter_pass 32767 rand_zero s0 1 = (bk, dr, c)"
    by (metis prod_cases3)
  note r1 = run_tract_front [OF run sp]
  have n1: "nsegments s1 = 22" using r1(2) n0 by simp
  have f0: "segments_front s0 = buffer1 s0" using i0(5) by (simp add: segments_front_def)
  have seg0: "shape_segment (current_phoneme main_globals) 22 True (int 0) neutral_segment
                = Some (buffer1 s0 ! 0)"
    using i0(8) [of 0] n0 by simp
  have z0: "z (segments_front s0 ! 0) = THROAT_Z"
    using shape_segment_Some(4) [OF seg0]
    by (simp add: f0 shape_target_z_def tongue_bounds_values)
  have l0: "left (segments_front s0 ! 0) = 0" and rt0: "right (segments_front s0 ! 0) = 0"
    using shape_segment_Some(1,2) [OF seg0] by (simp_all add: f0 neutral_segment_def)
  have d0: "damping s0 = DEFAULT_DAMPING" "diaphram_pressure s0 = 0"
    using i0 by (simp_all add: main_globals_def)
  have "right (segments_front s1 ! 0) = right (bk ! 0)"
    using r1(6) [of 0] n0 by simp
  also have "\<dots> = 2 / 51"
    using scatter_pass_frame(5) [OF sp] n0
    by (simp add: z0 l0 d0 reflection_def THROAT_Z_def DRAIN_Z_def)
  finally have front1: "right (segments_front s1 ! 0) = 2 / 51" .
  have back1: "right (segments_back s1 ! 0) = 0" using r1(4) rt0 by simp
  have fl1: "\<not> front_is_buffer1 s1" using r1(5) i0(5) by simp
  have "\<exists>s. init_tract 44100 True True
          (map2range 64 CONTROLLER_TRACT_LENGTH_MIN CONTROLLER_TRACT_LENGTH_MAX) s1 = Inr s"
    by (rule init_tract_defined) (simp_all add: segment_count_values tongue_bounds_values)
  then obtain s2 where
    rs: "resize_tract 44100 True True
           (map2range 64 CONTROLLER_TRACT_LENGTH_MIN CONTROLLER_TRACT_LENGTH_MAX) s1 = Inr s2"
    using resize_tract_defined by blast
  note r2 = resize_tract_Inr [OF rs]
  have n2: "nsegments s2 = 20" using r2(1) by (simp add: segment_count_values)
  have "right (segments_front s2 ! 0) = right (buffer1 s2 ! 0)"
    using r2(2) by (simp add: segments_front_def)
  also have "\<dots> = right (buffer1 s1 ! 0)"
    using r2(5) [of 0] n1 n2 by simp
  also have "\<dots> = right (segments_back s1 ! 0)"
    using fl1 by (simp add: segments_back_def)
  finally have front2: "right (segments_front s2 ! 0) = 0" using back1 by simp
  have "process_event 44100 True True (Midi 176 24 64) s1 = Inr s2"
    using rs by (simp add: process_event_resize)
  with init run front1 back1 front2 show ?thesis by blast
qed

subsection \<open>The reflection coefficient\<close>

text \<open>
  Claim C4, as the program has it.  \<^verbatim>\<open>reflection\<close> computes the difference and the sum
  of its arguments and the quotient of the two, each rounded to a \<^verbatim>\<open>double\<close>.  For all
  strictly positive impedances \<open>z1\<close> and \<open>z2\<close> the result lies between \<open>-1\<close> and \<open>1\<close>
  and changes sign when the arguments are exchanged.  It is strictly inside unless the
  rounded difference and the rounded sum have the same magnitude, and then it is exactly
  \<open>1\<close> or \<open>-1\<close>.  Without rounding it is the quotient \<open>(z2 - z1) / (z2 + z1)\<close>, which is
  always strictly inside (lemma \<open>reflection_exact_bounds\<close>).
\<close>

theorem C4_reflection_double_bounded_antisymmetric:
  assumes "0 < z1" and "0 < z2"
  shows "reflection_with dbl z1 z2 = dbl (dbl (z2 - z1) / dbl (z2 + z1))
       \<and> - 1 \<le> reflection_with dbl z1 z2 \<and> reflection_with dbl z1 z2 \<le> 1
       \<and> reflection_with dbl z1 z2 = - reflection_with dbl z2 z1
       \<and> (\<bar>dbl (z2 - z1)\<bar> \<noteq> dbl (z2 + z1) \<longrightarrow>
            - 1 < reflection_with dbl z1 z2 \<and> reflection_with dbl z1 z2 < 1)
       \<and> (\<bar>dbl (z2 - z1)\<bar> = dbl (z2 + z1) \<longrightarrow> \<bar>reflection_with dbl z1 z2\<bar> = 1)
       \<and> reflection_with (\<lambda>x. x) z1 z2 = reflection z1 z2
       \<and> reflection z1 z2 = (z2 - z1) / (z2 + z1)"
proof -
  have a: "reflection_with dbl z1 z2 = dbl (dbl (z2 - z1) / dbl (z2 + z1))"
    by (simp only: reflection_with_def)
  note b = reflection_double_bounded [OF assms]
  have c: "reflection_with dbl z1 z2 = - reflection_with dbl z2 z1"
    by (rule reflection_double_antisymmetric)
  have d: "\<bar>dbl (z2 - z1)\<bar> \<noteq> dbl (z2 + z1) \<longrightarrow>
            - 1 < reflection_with dbl z1 z2 \<and> reflection_with dbl z1 z2 < 1"
    using reflection_double_inside [OF assms] by blast
  have e: "\<bar>dbl (z2 - z1)\<bar> = dbl (z2 + z1) \<longrightarrow> \<bar>reflection_with dbl z1 z2\<bar> = 1"
    using reflection_double_extreme [OF assms] by blast
  have f: "reflection_with (\<lambda>x. x) z1 z2 = reflection z1 z2"
    by (rule reflection_with_exact)
  have g: "reflection z1 z2 = (z2 - z1) / (z2 + z1)"
    by (simp only: reflection_def)
  show ?thesis using a b c d e f g by blast
qed

text \<open>
  The impedances \<open>1 / 2 ^ 70\<close> and 1, both values of type \<^verbatim>\<open>double\<close>: their difference
  and their sum are both rounded to 1, and the reflection coefficient is exactly 1, and
  exactly \<open>-1\<close> with the arguments exchanged.
\<close>

theorem C4_strict_bound_counterexample:
  "(0::real) < 1 / 2 ^ 70 \<and> dbl (1 / 2 ^ 70) = 1 / 2 ^ 70 \<and> dbl 1 = 1
   \<and> reflection_with dbl (1 / 2 ^ 70) 1 = 1
   \<and> reflection_with dbl 1 (1 / 2 ^ 70) = - 1"
proof -
  have "reflection_with dbl (1 / 2 ^ 70) 1 = dbl (dbl (1 - 1 / 2 ^ 70) / dbl (1 + 1 / 2 ^ 70))"
    by (simp only: reflection_with_def)
  also have "\<dots> = dbl (1 / 1)"
    by (simp only: dbl_just_below_1 dbl_just_above_1)
  finally have a: "reflection_with dbl (1 / 2 ^ 70) 1 = 1" by simp
  have "reflection_with dbl 1 (1 / 2 ^ 70) = - reflection_with dbl (1 / 2 ^ 70) 1"
    by (rule reflection_double_antisymmetric)
  with a dbl_tiny show ?thesis by simp
qed

text \<open>
  The statement at the impedances 1 and 5: the difference 4 and the sum 6 are exact, and
  the coefficient is strictly inside.
\<close>

theorem C4_reflection_double_witness:
  "(0::real) < 1 \<and> (0::real) < 5
   \<and> \<bar>dbl (5 - 1)\<bar> \<noteq> dbl (5 + 1)
   \<and> - 1 < reflection_with dbl 1 5 \<and> reflection_with dbl 1 5 < 1
   \<and> reflection_with dbl 1 5 = - reflection_with dbl 5 1
   \<and> reflection 1 5 = 2 / 3"
proof -
  have four: "dbl (5 - 1) = 4"
    using dbl_pow2 [of 2] by (simp add: pow2_def)
  have e: "real_of_int 6755399441055744 * pow2 (- 50) = 6"
    by (simp add: pow2_def)
  have "dbl (real_of_int 6755399441055744 * pow2 (- 50)) = real_of_int 6755399441055744 * pow2 (- 50)"
    by (rule dbl_repr_pos) simp_all
  then have "dbl 6 = 6" unfolding e .
  then have six: "dbl (5 + 1) = 6" by simp
  have ne: "\<bar>dbl (5 - 1)\<bar> \<noteq> dbl (5 + 1)" unfolding four six by simp
  have h: "(0::real) < 1" "(0::real) < 5" by simp_all
  note t = C4_reflection_double_bounded_antisymmetric [OF h]
  have "- 1 < reflection_with dbl 1 5 \<and> reflection_with dbl 1 5 < 1" using t ne by blast
  moreover have "reflection_with dbl 1 5 = - reflection_with dbl 5 1" using t by blast
  moreover have "reflection 1 5 = 2 / 3" using t by simp
  ultimately show ?thesis using h ne by blast
qed

subsection \<open>The energy of the travelling waves\<close>

text \<open>
  Claim C5, as the program has it.  On a chain whose segments all have the same positive
  impedance (no reflection between segments, so no frication noise either), with a
  damping between 0 and 2, a zero glottal source sample and zero diaphragm pressure, one
  sample of \<^verbatim>\<open>run_tract\<close> does not increase the sum over the segments of
  \<open>left\<^sup>2 + right\<^sup>2\<close>.  At a change of impedance the transmitted amplitude is
  \<open>1 - gamma\<close> times the incoming one, which exceeds it when \<open>gamma\<close> is negative, and the
  sum can grow.
\<close>

theorem C5_uniform_tract_energy_nonincreasing:
  assumes "run_tract rand_max rnd s 0 = Some (d, s')"
    and "diaphram_pressure s = 0"
    and "0 \<le> damping s" and "damping s \<le> 2"
    and "length (segments_front s) = nat (nsegments s)"
    and "0 < z0"
    and "list_all (\<lambda>seg. z seg = z0) (segments_front s)"
  shows "wave_energy (segments_front s') \<le> wave_energy (segments_front s)"
proof -
  let ?front = "segments_front s"
  let ?N = "nat (nsegments s)"
  let ?a = "1 - damping s"
  let ?b = "reflection z0 DRAIN_Z * (1 - damping s)"
  obtain bk dr c where sp: "scatter_pass rand_max rnd s 0 = (bk, dr, c)"
    by (metis prod_cases3)
  have len: "length bk = ?N" using scatter_pass_frame(1) [OF sp] .
  have u: "\<forall>j<?N. z (?front ! j) = z0"
    using assms(5,7) by (simp add: list_all_length)
  have e: "wave_energy (segments_front s') = wave_energy bk"
    using run_tract_wave_energy [OF assms(1)] sp by simp
  have a1: "\<bar>?a\<bar> \<le> 1" using assms(3,4) by simp
  have g1: "\<bar>reflection z0 DRAIN_Z\<bar> \<le> 1"
    by (rule reflection_abs_le_1) (simp_all add: assms(6) DRAIN_Z_def)
  have "\<bar>?b\<bar> = \<bar>reflection z0 DRAIN_Z\<bar> * \<bar>?a\<bar>" by (simp add: abs_mult)
  also have "\<dots> \<le> 1 * 1" using a1 g1 by (intro mult_mono) simp_all
  finally have b1: "\<bar>?b\<bar> \<le> 1" by simp
  have a2: "?a\<^sup>2 \<le> 1" and b2: "?b\<^sup>2 \<le> 1"
    using a1 b1 by (simp_all only: abs_square_le_1)
  show ?thesis
  proof (cases ?N)
    case 0
    then show ?thesis using e len assms(5) by (simp add: wave_energy_def)
  next
    case (Suc m)
    have lf: "length ?front = Suc m" using assms(5) Suc by simp
    have l: "(\<Sum>i = 0..<Suc m. left (bk ! i) ^ 2)
           = (\<Sum>i = 0..<Suc m.
                (if Suc i = Suc m then right (?front ! i) * ?b else left (?front ! Suc i)) ^ 2)"
    proof (rule sum.cong)
      fix i assume "i \<in> {0..<Suc m}"
      then have "i < ?N" using Suc by simp
      from scatter_pass_waves_uniform(1) [OF sp assms(5) u this]
      show "left (bk ! i) ^ 2 =
              (if Suc i = Suc m then right (?front ! i) * ?b else left (?front ! Suc i)) ^ 2"
        by (simp add: uniform_left_def lf mult.assoc)
    qed simp
    have r: "(\<Sum>i = 0..<Suc m. right (bk ! i) ^ 2)
           = (\<Sum>i = 0..<Suc m.
                (if i = 0 then left (?front ! 0) * ?a else right (?front ! (i - 1))) ^ 2)"
    proof (rule sum.cong)
      fix i assume "i \<in> {0..<Suc m}"
      then have "i < ?N" using Suc by simp
      from scatter_pass_waves_uniform(2) [OF sp assms(5) u this]
      show "right (bk ! i) ^ 2 =
              (if i = 0 then left (?front ! 0) * ?a else right (?front ! (i - 1))) ^ 2"
        by (simp add: uniform_right_def assms(2))
    qed simp
    have "wave_energy bk
            = (\<Sum>i = 0..<Suc m. left (bk ! i) ^ 2) + (\<Sum>i = 0..<Suc m. right (bk ! i) ^ 2)"
      unfolding wave_energy_sum using len Suc by simp
    also have "\<dots> \<le> (\<Sum>i = 0..<Suc m. left (?front ! i) ^ 2)
                   + (\<Sum>i = 0..<Suc m. right (?front ! i) ^ 2)"
      unfolding l r
      by (rule uniform_energy_bound [OF a2 b2, of m "\<lambda>i. right (?front ! i)" "\<lambda>i. left (?front ! i)"])
    also have "\<dots> = wave_energy ?front"
      unfolding wave_energy_sum using lf by simp
    finally show ?thesis using e by simp
  qed
qed

text \<open>
  A chain of three segments of impedances 5, 1, 1 with one right-going amplitude 1 in
  the first segment, the default damping 0.04, no source, no pressure: the amplitude
  crosses to the second segment as \<open>5 / 3\<close> and is reflected as \<open>- 16 / 25\<close>, and the
  sum of squares grows from 1 to more than 3.
\<close>

theorem C5_energy_increase_counterexample:
  "0 < damping energy_state \<and> diaphram_pressure energy_state = 0
   \<and> wave_energy (segments_front energy_state) = 1
   \<and> wave_energy (segments_front (snd (the (run_tract 32767 rand_zero energy_state 0)))) > 3"
proof -
  have n: "nsegments energy_state = 3"
    by (simp add: energy_state_def demo_chain_def)
  have "\<exists>d s'. run_tract 32767 rand_zero energy_state 0 = Some (d, s')"
    by (rule run_tract_defined) (simp add: n tongue_bounds_3)
  then obtain d s' where run: "run_tract 32767 rand_zero energy_state 0 = Some (d, s')"
    by blast
  have "wave_energy (segments_front s')
          = wave_energy (fst (scatter_pass 32767 rand_zero energy_state 0))"
    by (rule run_tract_wave_energy [OF run])
  also have "\<dots> = sum_list (map (\<lambda>(l, r). l ^ 2 + r ^ 2)
                        [(- (16 / 25), 0), (0, 5 / 3), (0, 0)])"
    by (simp only: wave_energy_pairs energy_state_pass)
  also have "\<dots> = 256 / 625 + 25 / 9"
    by (simp add: power2_eq_square)
  finally have after: "wave_energy (segments_front (snd (the (run_tract 32767 rand_zero energy_state 0)))) > 3"
    using run by simp
  have before: "wave_energy (segments_front energy_state) = 1"
    by (simp add: wave_energy_def energy_state_def demo_chain_def main_globals_def
          segments_front_def neutral_segment_def)
  have "0 < damping energy_state \<and> diaphram_pressure energy_state = 0"
    by (simp add: energy_state_def demo_chain_def main_globals_def DEFAULT_DAMPING_def)
  with before after show ?thesis by blast
qed

text \<open>
  The statement on a chain of three segments of impedance 1 that holds a right-going and
  a left-going amplitude.
\<close>

theorem C5_uniform_tract_energy_witness:
  "diaphram_pressure uniform_state = 0
   \<and> 0 \<le> damping uniform_state \<and> damping uniform_state \<le> 2
   \<and> length (segments_front uniform_state) = nat (nsegments uniform_state)
   \<and> (0::real) < 1
   \<and> list_all (\<lambda>seg. z seg = 1) (segments_front uniform_state)
   \<and> (\<exists>d s'. run_tract 32767 rand_zero uniform_state 0 = Some (d, s')
         \<and> wave_energy (segments_front s') \<le> wave_energy (segments_front uniform_state))"
proof -
  have n: "nsegments uniform_state = 3"
    by (simp add: uniform_state_def demo_chain_def)
  have h: "diaphram_pressure uniform_state = 0"
    "0 \<le> damping uniform_state" "damping uniform_state \<le> 2"
    "length (segments_front uniform_state) = nat (nsegments uniform_state)"
    "(0::real) < 1"
    "list_all (\<lambda>seg. z seg = 1) (segments_front uniform_state)"
    by (simp_all add: uniform_state_def demo_chain_def main_globals_def segments_front_def
          neutral_segment_def DEFAULT_DAMPING_def NEUTRAL_Z_def)
  have "\<exists>d s'. run_tract 32767 rand_zero uniform_state 0 = Some (d, s')"
    by (rule run_tract_defined) (simp add: n tongue_bounds_3)
  then obtain d s' where run: "run_tract 32767 rand_zero uniform_state 0 = Some (d, s')"
    by blast
  from C5_uniform_tract_energy_nonincreasing [OF run h]
  have "wave_energy (segments_front s') \<le> wave_energy (segments_front uniform_state)" .
  with h run show ?thesis by blast
qed

subsection \<open>The articulation filter\<close>




subsection \<open>The edges of the tongue zone\<close>

text \<open>
  Claim C7, as the program has it.  When the tongue zone has at least two segments,
  the target impedance at its first index is
  \<open>1 / (1 - cos (tongue_position * pi / 2) * tongue_height + MIN_AREA) * NEUTRAL_Z\<close> and at
  its last index
  \<open>1 / (1 - cos ((1 - tongue_position) * pi / 2) * tongue_height + MIN_AREA) * NEUTRAL_Z\<close>;
  the throat segment before the zone has the target \<open>THROAT_Z\<close> and the lip segment
  after it \<open>1 / (1 - lips_roundedness + MIN_AREA) * NEUTRAL_Z\<close>.  The shape function does
  not blend the zones: nothing makes the targets on the two sides of an edge agree.
\<close>

theorem C7_tongue_zone_edge_targets:
  assumes "update_shape set_z s = Some s'"
    and "2 \<le> tongue_stop (nsegments s) - tongue_start (nsegments s)"
  shows "target_z (segments_front s' ! nat (tongue_start (nsegments s))) =
           1 / (1 - cos (tongue_position (current_phoneme s) * pi / 2)
                      * tongue_height (current_phoneme s) + MIN_AREA) * NEUTRAL_Z
       \<and> target_z (segments_front s' ! nat (tongue_stop (nsegments s) - 1)) =
           1 / (1 - cos ((1 - tongue_position (current_phoneme s)) * pi / 2)
                      * tongue_height (current_phoneme s) + MIN_AREA) * NEUTRAL_Z
       \<and> (0 < tongue_start (nsegments s) \<longrightarrow>
            target_z (segments_front s' ! nat (tongue_start (nsegments s) - 1)) = THROAT_Z)
       \<and> (tongue_stop (nsegments s) < nsegments s \<longrightarrow>
            target_z (segments_front s' ! nat (tongue_stop (nsegments s))) =
              1 / (1 - lips_roundedness (current_phoneme s) + MIN_AREA) * NEUTRAL_Z)"
proof -
  let ?n = "nsegments s"
  let ?a = "tongue_start ?n"
  let ?b = "tongue_stop ?n"
  have n0: "0 \<le> ?n"
    using assms(2) tongue_zone_negative [of ?n] by (cases "0 \<le> ?n") simp_all
  note zb = tongue_zone_bounds [OF n0]
  have first: "nat ?a < nat ?n" using zb assms(2) by simp
  have last: "nat (?b - 1) < nat ?n" using zb assms(2) by simp
  have d: "real_of_int (?b - ?a - 1) \<noteq> 0" using assms(2) by simp
  have t1: "target_z (segments_front s' ! nat ?a) =
           1 / (1 - cos (tongue_position (current_phoneme s) * pi / 2)
                      * tongue_height (current_phoneme s) + MIN_AREA) * NEUTRAL_Z"
  proof -
    have "cos ((0 - tongue_position (current_phoneme s)) * pi / 2)
            = cos (tongue_position (current_phoneme s) * pi / 2)"
      using cos_minus [of "tongue_position (current_phoneme s) * pi / 2"] by simp
    then show ?thesis
      using update_shape_target [OF assms(1) first] zb assms(2)
      by (simp add: shape_target_z_def)
  qed
  have t2: "target_z (segments_front s' ! nat (?b - 1)) =
           1 / (1 - cos ((1 - tongue_position (current_phoneme s)) * pi / 2)
                      * tongue_height (current_phoneme s) + MIN_AREA) * NEUTRAL_Z"
  proof -
    have q: "real_of_int (?b - 1 - ?a) / real_of_int (?b - ?a - 1) = 1"
      using assms(2) by simp
    have c1: "\<not> ?b - 1 < ?a" and c2: "\<not> ?b \<le> ?b - 1" using assms(2) by simp_all
    have "shape_target_z (current_phoneme s) ?n (?b - 1) =
            1 / (1 - cos ((real_of_int (?b - 1 - ?a) / real_of_int (?b - ?a - 1)
                            - tongue_position (current_phoneme s)) * pi / 2)
                       * tongue_height (current_phoneme s) + MIN_AREA) * NEUTRAL_Z"
      unfolding shape_target_z_def using c1 c2 by (simp only: if_False)
    also have "\<dots> = 1 / (1 - cos ((1 - tongue_position (current_phoneme s)) * pi / 2)
                      * tongue_height (current_phoneme s) + MIN_AREA) * NEUTRAL_Z"
      by (simp only: q)
    finally have st: "shape_target_z (current_phoneme s) ?n (?b - 1) =
           1 / (1 - cos ((1 - tongue_position (current_phoneme s)) * pi / 2)
                      * tongue_height (current_phoneme s) + MIN_AREA) * NEUTRAL_Z" .
    have "int (nat (?b - 1)) = ?b - 1" using zb assms(2) by simp
    with update_shape_target [OF assms(1) last] st show ?thesis by simp
  qed
  have t3: "0 < ?a \<longrightarrow> target_z (segments_front s' ! nat (?a - 1)) = THROAT_Z"
  proof
    assume a: "0 < ?a"
    then have "nat (?a - 1) < nat ?n" using zb assms(2) by simp
    from update_shape_target [OF assms(1) this] a
    show "target_z (segments_front s' ! nat (?a - 1)) = THROAT_Z"
      by (simp add: shape_target_z_def)
  qed
  have t4: "?b < ?n \<longrightarrow> target_z (segments_front s' ! nat ?b) =
              1 / (1 - lips_roundedness (current_phoneme s) + MIN_AREA) * NEUTRAL_Z"
  proof
    assume b: "?b < ?n"
    then have "nat ?b < nat ?n" using zb by simp
    from update_shape_target [OF assms(1) this] zb assms(2)
    show "target_z (segments_front s' ! nat ?b) =
              1 / (1 - lips_roundedness (current_phoneme s) + MIN_AREA) * NEUTRAL_Z"
      by (simp add: shape_target_z_def)
  qed
  show ?thesis using t1 t2 t3 t4 by blast
qed

text \<open>
  The preset U (tongue height 0, lips roundedness 0.9) on 22 segments: the tongue zone
  is the indices 4 to 18.  The target at the index 4 differs from \<open>THROAT_Z\<close> by more
  than \<open>MIN_AREA\<close> (it is close to 1, not to 5), and the target at the index 18 differs
  from the lip target at the index 19 by more than \<open>MIN_AREA\<close> (close to 1, not to 10).
\<close>

theorem C7_edge_continuity_counterexample:
  "MIN_AREA < \<bar>target_z (the (shape_segment PHONEME_U 22 False 4 neutral_segment)) - THROAT_Z\<bar>
   \<and> MIN_AREA < \<bar>target_z (the (shape_segment PHONEME_U 22 False 18 neutral_segment))
                  - target_z (the (shape_segment PHONEME_U 22 False 19 neutral_segment))\<bar>"
proof -
  have c: "c_int (TONGUE_BACK * 22) = 4" "c_int (TONGUE_FRONT * 22) = 19"
    using tongue_bounds_values by (simp_all add: tongue_start_def tongue_stop_def)
  have s4: "target_z (the (shape_segment PHONEME_U 22 False 4 neutral_segment))
              = 1000000 / 1000001"
    by (simp add: shape_segment_def c unit_pos_def Let_def PHONEME_U_def MIN_AREA_def NEUTRAL_Z_def)
  have s18: "target_z (the (shape_segment PHONEME_U 22 False 18 neutral_segment))
              = 1000000 / 1000001"
    by (simp add: shape_segment_def c unit_pos_def Let_def PHONEME_U_def MIN_AREA_def NEUTRAL_Z_def)
  have s19: "target_z (the (shape_segment PHONEME_U 22 False 19 neutral_segment))
              = 1000000 / 100001"
    by (simp add: shape_segment_def c unit_pos_def Let_def PHONEME_U_def MIN_AREA_def NEUTRAL_Z_def)
  show ?thesis unfolding s4 s18 s19 by (simp add: MIN_AREA_def THROAT_Z_def)
qed

text \<open>The statement on a chain of 22 segments with the preset U as current phoneme.\<close>

theorem C7_tongue_zone_edge_targets_witness:
  "2 \<le> tongue_stop (nsegments shape_demo_state) - tongue_start (nsegments shape_demo_state)
   \<and> (\<exists>s'. update_shape False shape_demo_state = Some s'
         \<and> target_z (segments_front s' ! 4) = 1000000 / 1000001
         \<and> target_z (segments_front s' ! 18) = 1000000 / 1000001
         \<and> target_z (segments_front s' ! 3) = 5
         \<and> target_z (segments_front s' ! 19) = 1000000 / 100001)"
proof -
  have n: "nsegments shape_demo_state = 22"
    by (simp add: shape_demo_state_def demo_chain_def)
  have cur: "current_phoneme shape_demo_state = PHONEME_U"
    by (simp add: shape_demo_state_def)
  have two: "2 \<le> tongue_stop (nsegments shape_demo_state)
                 - tongue_start (nsegments shape_demo_state)"
    by (simp add: n tongue_bounds_values)
  have "tongue_stop (nsegments shape_demo_state) - tongue_start (nsegments shape_demo_state) \<noteq> 1"
    by (simp add: n tongue_bounds_values)
  from update_shape_defined [OF this] obtain s' where
    us: "update_shape False shape_demo_state = Some s'" by blast
  from C7_tongue_zone_edge_targets [OF us two]
  have "target_z (segments_front s' ! 4) = 1000000 / 1000001
         \<and> target_z (segments_front s' ! 18) = 1000000 / 1000001
         \<and> target_z (segments_front s' ! 3) = 5
         \<and> target_z (segments_front s' ! 19) = 1000000 / 100001"
    by (simp add: n cur tongue_bounds_values PHONEME_U_def MIN_AREA_def NEUTRAL_Z_def THROAT_Z_def)
  with two us show ?thesis by blast
qed

subsection \<open>A failed allocation\<close>

text \<open>
  Claim C8, as the program has it.  \<^verbatim>\<open>init_tract\<close> does not check what \<^verbatim>\<open>malloc\<close>
  returns.  When an allocation fails during a resize and the new segment count is
  positive, the program writes through a null pointer in the first round of the
  initialising loop.  At that write the global variables hold the new sample rate, the
  new lengths and the new segment count, the front buffer is \<^verbatim>\<open>buffer1\<close>, and the two
  buffer pointers are what \<^verbatim>\<open>malloc\<close> returned, one of them null: the resize does not
  fail on its own, and the chain that was running is not kept.
\<close>

theorem C8_resize_allocation_failure_faults:
  assumes "\<not> (ok1 \<and> ok2)" and "0 < segment_count jack_rate desired_length"
  shows "\<exists>g. resize_tract jack_rate ok1 ok2 desired_length s = Inl (NullDeref g)
           \<and> rate g = jack_rate
           \<and> unit_length g = SPEED_OF_SOUND / real_of_int (rate g)
           \<and> nsegments g = c_int (desired_length / unit_length g)
           \<and> 0 < nsegments g
           \<and> tract_length g = real_of_int (nsegments g) * unit_length g
           \<and> front_is_buffer1 g
           \<and> buffer1 g = (if ok1 then (replicate (nat (nsegments g)) fresh_segment)
                                        [0 := neutral_segment]
                           else [])
           \<and> buffer2 g = (if ok2 then replicate (nat (nsegments g)) fresh_segment else [])
           \<and> (buffer1 g = [] \<or> buffer2 g = [])"
proof -
  let ?n = "segment_count jack_rate desired_length"
  let ?g = "s\<lparr>rate := jack_rate,
               unit_length := SPEED_OF_SOUND / real_of_int jack_rate,
               tract_length := real_of_int ?n * (SPEED_OF_SOUND / real_of_int jack_rate),
               nsegments := ?n,
               buffer1 := (if ok1 then (replicate (nat ?n) fresh_segment)[0 := neutral_segment]
                           else []),
               buffer2 := (if ok2 then replicate (nat ?n) fresh_segment else []),
               front_is_buffer1 := True\<rparr>"
  have "init_tract jack_rate ok1 ok2 desired_length s = Inl (NullDeref ?g)"
    using assms by (rule init_tract_NullDeref)
  then have r: "resize_tract jack_rate ok1 ok2 desired_length s = Inl (NullDeref ?g)"
    by (rule resize_tract_Inl)
  have "rate ?g = jack_rate
           \<and> unit_length ?g = SPEED_OF_SOUND / real_of_int (rate ?g)
           \<and> nsegments ?g = c_int (desired_length / unit_length ?g)
           \<and> 0 < nsegments ?g
           \<and> tract_length ?g = real_of_int (nsegments ?g) * unit_length ?g
           \<and> front_is_buffer1 ?g
           \<and> buffer1 ?g = (if ok1 then (replicate (nat (nsegments ?g)) fresh_segment)
                                        [0 := neutral_segment]
                           else [])
           \<and> buffer2 ?g = (if ok2 then replicate (nat (nsegments ?g)) fresh_segment else [])
           \<and> (buffer1 ?g = [] \<or> buffer2 ?g = [])"
    using assms by (simp add: segment_count_def)
  with r show ?thesis by blast
qed

text \<open>
  A chain of one segment with a wave in it, a resize to 17.5 cm at 44100 Hz whose
  first allocation fails: the program writes through the null pointer, and the global
  variables then say 22 segments and hold a null pointer where the front buffer of the
  chain was.
\<close>

theorem C8_prior_chain_intact_counterexample:
  "\<exists>g. resize_tract 44100 False True TRACT_LENGTH glottis_state = Inl (NullDeref g)
      \<and> nsegments glottis_state = 1 \<and> nsegments g = 22
      \<and> segments_front glottis_state = [neutral_segment\<lparr>left := 1\<rparr>]
      \<and> segments_front g = []"
proof -
  let ?g = "glottis_state\<lparr>rate := 44100,
                     unit_length := SPEED_OF_SOUND / real_of_int 44100,
                     tract_length := real_of_int (segment_count 44100 TRACT_LENGTH)
                                       * (SPEED_OF_SOUND / real_of_int 44100),
                     nsegments := segment_count 44100 TRACT_LENGTH,
                     buffer1 := (if False then (replicate (nat (segment_count 44100 TRACT_LENGTH))
                                                fresh_segment)[0 := neutral_segment]
                                 else []),
                     buffer2 := (if True then replicate (nat (segment_count 44100 TRACT_LENGTH))
                                               fresh_segment
                                 else []),
                     front_is_buffer1 := True\<rparr>"
  have "init_tract 44100 False True TRACT_LENGTH glottis_state = Inl (NullDeref ?g)"
    by (rule init_tract_NullDeref) (simp_all add: segment_count_values)
  then have r: "resize_tract 44100 False True TRACT_LENGTH glottis_state = Inl (NullDeref ?g)"
    by (rule resize_tract_Inl)
  have g: "nsegments ?g = 22" "segments_front ?g = []"
    by (simp_all add: segment_count_values segments_front_def)
  have o: "nsegments glottis_state = 1"
    "segments_front glottis_state = [neutral_segment\<lparr>left := 1\<rparr>]"
    by (simp_all add: glottis_state_def demo_chain_def segments_front_def main_globals_def)
  show ?thesis using r g o by blast
qed

text \<open>The statement for a resize to 24 cm at 48000 Hz whose second allocation fails.\<close>

theorem C8_resize_allocation_failure_witness:
  "\<not> (True \<and> False)
   \<and> 0 < segment_count 48000 (map2range 127 CONTROLLER_TRACT_LENGTH_MIN CONTROLLER_TRACT_LENGTH_MAX)
   \<and> (\<exists>g. resize_tract 48000 True False
             (map2range 127 CONTROLLER_TRACT_LENGTH_MIN CONTROLLER_TRACT_LENGTH_MAX) main_globals
           = Inl (NullDeref g)
         \<and> rate g = 48000 \<and> nsegments g = 33
         \<and> buffer1 g = (replicate 33 fresh_segment)[0 := neutral_segment]
         \<and> buffer2 g = [])"
proof -
  let ?len = "map2range 127 CONTROLLER_TRACT_LENGTH_MIN CONTROLLER_TRACT_LENGTH_MAX"
  have h: "\<not> (True \<and> False)" "0 < segment_count 48000 ?len"
    by (simp_all add: segment_count_values)
  from C8_resize_allocation_failure_faults [OF h, of main_globals]
  obtain g where r: "resize_tract 48000 True False ?len main_globals = Inl (NullDeref g)"
    and g: "rate g = 48000" "unit_length g = SPEED_OF_SOUND / real_of_int (rate g)"
      "nsegments g = c_int (?len / unit_length g)"
      "buffer1 g = (if True then (replicate (nat (nsegments g)) fresh_segment)
                                   [0 := neutral_segment] else [])"
      "buffer2 g = (if False then replicate (nat (nsegments g)) fresh_segment else [])"
    by blast
  have "unit_length g = SPEED_OF_SOUND / real_of_int 48000"
    using g(2) by (simp only: g(1))
  then have "nsegments g = segment_count 48000 ?len"
    using g(3) by (simp only: segment_count_def)
  then have n: "nsegments g = 33" by (simp add: segment_count_values)
  have "buffer1 g = (replicate 33 fresh_segment)[0 := neutral_segment]" "buffer2 g = []"
    using g(4,5) n by simp_all
  with h r g(1) n show ?thesis by blast
qed

subsection \<open>The derived lengths\<close>

text \<open>
  Claim C9.  Initialising the tract with the desired length 17.5 cm at the sample rate
  44100 Hz gives \<open>unit_length = 34300 / 44100\<close> (about 0.7778 cm), \<open>nsegments = 22\<close>,
  the floor of \<open>17.5 / unit_length\<close>, and \<open>tract_length = 22 * unit_length\<close> (about
  17.11 cm), from whatever state the program is in.
\<close>

theorem C9_init_derived_values:
  "\<exists>s. init_tract 44100 True True TRACT_LENGTH s0 = Inr s
     \<and> TRACT_LENGTH = 175 / 10
     \<and> unit_length s = 34300 / 44100
     \<and> nsegments s = 22
     \<and> nsegments s = \<lfloor>TRACT_LENGTH / unit_length s\<rfloor>
     \<and> tract_length s = 22 * (34300 / 44100)
     \<and> \<bar>unit_length s - 7778 / 10000\<bar> < 1 / 10000
     \<and> \<bar>tract_length s - 1711 / 100\<bar> < 1 / 100"
proof -
  have "\<exists>s. init_tract 44100 True True TRACT_LENGTH s0 = Inr s"
    by (rule init_tract_defined) (simp_all add: segment_count_values tongue_bounds_values)
  then obtain s where init: "init_tract 44100 True True TRACT_LENGTH s0 = Inr s" ..
  note i = init_tract_Inr [OF init]
  have ul: "unit_length s = 34300 / 44100" using i(2) by (simp add: SPEED_OF_SOUND_def)
  have n: "nsegments s = 22" using i(3) by (simp add: segment_count_values)
  have tl: "tract_length s = 22 * (34300 / 44100)" using i(4) n ul by simp
  have fl: "nsegments s = \<lfloor>TRACT_LENGTH / unit_length s\<rfloor>"
    unfolding n ul by (simp add: TRACT_LENGTH_def)
  have "TRACT_LENGTH = 175 / 10" by (simp add: TRACT_LENGTH_def)
  moreover have "\<bar>unit_length s - 7778 / 10000\<bar> < 1 / 10000" unfolding ul by simp
  moreover have "\<bar>tract_length s - 1711 / 100\<bar> < 1 / 100" unfolding tl by simp
  ultimately show ?thesis using init ul n tl fl by blast
qed

subsection \<open>Rigidity and wall compliance\<close>

text \<open>
  Claim C10, where the program breaks it.  The rigidity of every segment is 1 wherever
  the program writes it, so on a chain of numbers both wall-compliance terms
  \<open>reflection * (1 - rigidity)\<close> are zero (lemma \<open>reachable_wall_terms_zero\<close>).  The defect
  of claim C2 makes them not a number.  At 11025 Hz the control change that sets the
  tract length to 8 cm builds a chain of 2 segments: the shape function has no value
  for the segment 0, the only one of the tongue zone (the program stores the result of
  \<^verbatim>\<open>0 / 0.0\<close> as its impedance), and gives the lip segment 1 the rigidity 1 and the
  impedance \<open>1000000 / 1000001\<close>.  The model stops there.  In the program the reflection
  between the two segments is then not a number, and neither is its product with
  \<open>1 - rigidity = 0\<close>, which the scattering pass adds to the area of the lip segment.
\<close>

theorem C10_wall_term_single_tongue_segment:
  "\<exists>s0 lip.
      init_tract 11025 True True TRACT_LENGTH main_globals = Inr s0
    \<and> list_all (\<lambda>seg. rigidity seg = 1) (buffer1 s0)
    \<and> list_all (\<lambda>seg. rigidity seg = 1) (buffer2 s0)
    \<and> segment_count 11025
         (map2range 0 CONTROLLER_TRACT_LENGTH_MIN CONTROLLER_TRACT_LENGTH_MAX) = 2
    \<and> shape_segment (current_phoneme s0) 2 True 0 neutral_segment = None
    \<and> shape_segment (current_phoneme s0) 2 True 1 neutral_segment = Some lip
    \<and> rigidity lip = 1 \<and> z lip = 1000000 / 1000001
    \<and> process_event 11025 True True (Midi 176 24 0) s0 = Inl NotANumber"
proof -
  have "\<exists>s. init_tract 11025 True True TRACT_LENGTH main_globals = Inr s"
    by (rule init_tract_defined) (simp_all add: segment_count_values tongue_bounds_values)
  then obtain s0 where init: "init_tract 11025 True True TRACT_LENGTH main_globals = Inr s0" ..
  have rigid: "list_all (\<lambda>seg. rigidity seg = 1) (buffer1 s0)"
    "list_all (\<lambda>seg. rigidity seg = 1) (buffer2 s0)"
    using init_tract_rigid [OF init] by (simp_all add: rigid_chain_def)
  have cur: "current_phoneme s0 = current_phoneme main_globals"
    using init_tract_Inr(9) [OF init] .
  have c: "c_int (TONGUE_BACK * 2) = 0" "c_int (TONGUE_FRONT * 2) = 1"
    using tongue_bounds_values by (simp_all add: tongue_start_def tongue_stop_def)
  have s0: "shape_segment (current_phoneme s0) 2 True 0 neutral_segment = None"
    by (simp add: shape_segment_None tongue_bounds_values)
  let ?lip = "neutral_segment\<lparr>target_z := 1000000 / 1000001, rigidity := 1,
                              z := 1000000 / 1000001\<rparr>"
  have s1: "shape_segment (current_phoneme s0) 2 True 1 neutral_segment = Some ?lip"
    unfolding cur
    by (simp add: shape_segment_def c Let_def main_globals_def MIN_AREA_def NEUTRAL_Z_def
          LIPS_RIGIDITY_def)
  have l: "rigidity ?lip = 1" "z ?lip = 1000000 / 1000001" by simp_all
  have "init_tract 11025 True True
          (map2range 0 CONTROLLER_TRACT_LENGTH_MIN CONTROLLER_TRACT_LENGTH_MAX) s0
        = Inl NotANumber"
    by (rule init_tract_NotANumber) (simp_all add: segment_count_values tongue_bounds_values)
  then have ev: "process_event 11025 True True (Midi 176 24 0) s0 = Inl NotANumber"
    by (simp add: process_event_resize resize_tract_Inl)
  show ?thesis
    using init rigid segment_count_values(3) s0 s1 l ev by blast
qed

end
